theory Spec2Isabelle
  imports Main "HOL-Library.Word"
begin

unbundle bit_operations_syntax

section \<open>Errors\<close>

type_synonym bytes = string

text \<open>
  The value of a catalog accessor that returns \<open>(value, error)\<close> and whose error the
  source inspects: \<open>Inl\<close> carries the decoder's message. Accessors whose error the source
  drops (\<open>x, _ := ...\<close>) are plain values.
\<close>
type_synonym 'a read = "string + 'a"

text \<open>
  What the source asks of an error that \<open>System\<close> returns: \<open>os.IsExist\<close>,
  \<open>os.IsNotExist\<close>, and the type assertion to \<open>*exec.ExitError\<close>.
\<close>
datatype os_kind = Exist | NotExist | Exit | Other

datatype ctx_err = Canceled | DeadlineExceeded

datatype construction_error =
    DuplicateID "64 word"
  | MissingDep "64 word" "64 word"
  | Cycle "64 word list"
  | ZeroID

text \<open>
  Modelled from the spec: the file errors.go (\<open>Error\<close>, \<open>errorf\<close>, \<open>toError\<close>,
  \<open>errorWithResource\<close>, \<open>errorWithOutput\<close>) is missing. Section 4.5 of the spec: every
  error is wrapped into an \<open>Error\<close> carrying an optional resource \<open>{id, comment}\<close>, the
  cause, and the optional captured output of a failed command. \<open>Errorf f args\<close> is the
  value of \<open>errorf(f, args...)\<close>, kept as format and arguments.
\<close>
datatype err =
    OsError os_kind string
  | CapnpError string
  | CtxError ctx_err
  | ConstructionError construction_error
  | ErrorsNew string
  | Errorf string "arg list"
  | Error "(64 word \<times> string) option" "bytes option" err
and arg = ArgStr string | ArgNat nat | ArgErr err

definition IsExist :: "err \<Rightarrow> bool" where
  "IsExist e = (case e of OsError Exist _ \<Rightarrow> True | _ \<Rightarrow> False)"

definition IsNotExist :: "err \<Rightarrow> bool" where
  "IsNotExist e = (case e of OsError NotExist _ \<Rightarrow> True | _ \<Rightarrow> False)"

definition isExitError :: "err \<Rightarrow> bool" where
  "isExitError e = (case e of OsError Exit _ \<Rightarrow> True | _ \<Rightarrow> False)"

text \<open>Modelled from the spec: \<open>toError\<close> of the missing errors.go (section 4.5).\<close>
definition toError :: "err \<Rightarrow> err" where
  "toError e = (case e of Error r out c \<Rightarrow> Error r out c | _ \<Rightarrow> Error None None e)"

text \<open>Modelled from the spec: \<open>errorWithOutput\<close> of the missing errors.go (section 4.5).\<close>
definition errorWithOutput :: "bytes \<Rightarrow> err \<Rightarrow> err" where
  "errorWithOutput out e = (case toError e of Error r _ c \<Rightarrow> Error r (Some out) c | x \<Rightarrow> x)"

section \<open>Catalog model\<close>

datatype File_Which =
    File_plain "bytes read option"
  | File_directory
  | File_symlink "string read"
  | File_absent
  | File_other nat

record File =
  file_Path :: "string read"
  file_Which :: File_Which

datatype Command_Which = Command_argv "string read list" | Command_other nat

record Exec_Command =
  cmd_Which :: Command_Which
  Environment :: "(bytes read \<times> bytes) list"
  WorkingDirectory :: string

datatype Exec_condition =
    Cond_always
  | Cond_onlyIf "Exec_Command read"
  | Cond_unless "Exec_Command read"
  | Cond_fileAbsent string
  | Cond_other nat

record Exec =
  Condition :: Exec_condition
  Command :: "Exec_Command read"

datatype Resource_Which =
    Resource_noop
  | Resource_file "File read"
  | Resource_exec "Exec read"
  | Resource_other nat

record Resource =
  ID :: "64 word"
  Comment :: string
  Dependencies :: "64 word list"
  Which :: Resource_Which

record Catalog =
  Resources :: "Resource list"

text \<open>Modelled from the spec: \<open>errorWithResource\<close> of the missing errors.go (section 4.5).\<close>
definition errorWithResource :: "Resource \<Rightarrow> err option \<Rightarrow> err option" where
  "errorWithResource r eo =
     (case eo of
        None \<Rightarrow> None
      | Some e \<Rightarrow>
          (case toError e of
             Error _ out c \<Rightarrow> Some (Error (Some (ID r, Comment r)) out c)
           | x \<Rightarrow> Some x))"

section \<open>The System interface\<close>

text \<open>\<open>system.Cmd\<close>, with the fields \<open>buildCommand\<close> fills.\<close>
record Cmd =
  Path :: string
  Args :: "string list"
  Env :: "string list"
  Dir :: string

text \<open>\<open>os.FileMode\<close> is a \<open>uint32\<close>; the type bits are those of Go's package os.\<close>
type_synonym FileMode = "32 word"

definition ModeDir :: FileMode where "ModeDir = push_bit 31 1"
definition ModeSymlink :: FileMode where "ModeSymlink = push_bit 27 1"
definition ModeDevice :: FileMode where "ModeDevice = push_bit 26 1"
definition ModeNamedPipe :: FileMode where "ModeNamedPipe = push_bit 25 1"
definition ModeSocket :: FileMode where "ModeSocket = push_bit 24 1"
definition ModeCharDevice :: FileMode where "ModeCharDevice = push_bit 21 1"
definition ModeIrregular :: FileMode where "ModeIrregular = push_bit 19 1"

definition ModeType :: FileMode where
  "ModeType = ModeDir OR ModeSymlink OR ModeNamedPipe OR ModeSocket OR ModeDevice
     OR ModeCharDevice OR ModeIrregular"

definition IsRegular :: "FileMode \<Rightarrow> bool" where
  "IsRegular m = (m AND ModeType = 0)"

record FileInfo =
  Mode :: FileMode

definition IsDir :: "FileInfo \<Rightarrow> bool" where
  "IsDir info = (Mode info AND ModeDir \<noteq> 0)"

text \<open>
  The injected \<open>System\<close> over a host state \<open>'w\<close>: each method reads the host state and
  returns it updated. \<open>LocalRoot\<close> is the constant of the same package, whose value the
  sources here do not give. \<open>WriteFile\<close> is the package's helper of that name.
\<close>
record 'w System =
  LocalRoot :: string
  Lstat :: "string \<Rightarrow> 'w \<Rightarrow> (err + FileInfo) \<times> 'w"
  Mkdir :: "string \<Rightarrow> nat \<Rightarrow> 'w \<Rightarrow> err option \<times> 'w"
  Symlink :: "string \<Rightarrow> string \<Rightarrow> 'w \<Rightarrow> err option \<times> 'w"
  Readlink :: "string \<Rightarrow> 'w \<Rightarrow> (err + string) \<times> 'w"
  Remove :: "string \<Rightarrow> 'w \<Rightarrow> err option \<times> 'w"
  WriteFile :: "string \<Rightarrow> bytes \<Rightarrow> nat \<Rightarrow> 'w \<Rightarrow> err option \<times> 'w"
  Run :: "Cmd \<Rightarrow> 'w \<Rightarrow> (bytes \<times> err option) \<times> 'w"

datatype call =
    Call_Lstat string
  | Call_Mkdir string nat
  | Call_Symlink string string
  | Call_Readlink string
  | Call_Remove string
  | Call_WriteFile string bytes nat
  | Call_Run Cmd

datatype log_event = Infof string "arg list" | LogError err

text \<open>
  The state an \<open>Apply\<close> runs in: the host, the \<open>System\<close> methods invoked so far, the
  \<open>Logger\<close> methods invoked so far, and the resources handed to \<open>applyResource\<close> so
  far, each with what it returned.
\<close>
record 'w state =
  world :: 'w
  calls :: "call list"
  logs :: "log_event list"
  ran :: "(nat \<times> err option) list"

definition sysLstat :: "'w System \<Rightarrow> string \<Rightarrow> 'w state \<Rightarrow> (err + FileInfo) \<times> 'w state" where
  "sysLstat sys p s =
     (case Lstat sys p (world s) of
        (r, w) \<Rightarrow> (r, s\<lparr>world := w, calls := calls s @ [Call_Lstat p]\<rparr>))"

definition sysMkdir :: "'w System \<Rightarrow> string \<Rightarrow> nat \<Rightarrow> 'w state \<Rightarrow> err option \<times> 'w state" where
  "sysMkdir sys p m s =
     (case Mkdir sys p m (world s) of
        (r, w) \<Rightarrow> (r, s\<lparr>world := w, calls := calls s @ [Call_Mkdir p m]\<rparr>))"

definition sysSymlink :: "'w System \<Rightarrow> string \<Rightarrow> string \<Rightarrow> 'w state \<Rightarrow> err option \<times> 'w state" where
  "sysSymlink sys t p s =
     (case Symlink sys t p (world s) of
        (r, w) \<Rightarrow> (r, s\<lparr>world := w, calls := calls s @ [Call_Symlink t p]\<rparr>))"

definition sysReadlink :: "'w System \<Rightarrow> string \<Rightarrow> 'w state \<Rightarrow> (err + string) \<times> 'w state" where
  "sysReadlink sys p s =
     (case Readlink sys p (world s) of
        (r, w) \<Rightarrow> (r, s\<lparr>world := w, calls := calls s @ [Call_Readlink p]\<rparr>))"

definition sysRemove :: "'w System \<Rightarrow> string \<Rightarrow> 'w state \<Rightarrow> err option \<times> 'w state" where
  "sysRemove sys p s =
     (case Remove sys p (world s) of
        (r, w) \<Rightarrow> (r, s\<lparr>world := w, calls := calls s @ [Call_Remove p]\<rparr>))"

definition sysWriteFile ::
  "'w System \<Rightarrow> string \<Rightarrow> bytes \<Rightarrow> nat \<Rightarrow> 'w state \<Rightarrow> err option \<times> 'w state" where
  "sysWriteFile sys p c m s =
     (case WriteFile sys p c m (world s) of
        (r, w) \<Rightarrow> (r, s\<lparr>world := w, calls := calls s @ [Call_WriteFile p c m]\<rparr>))"

definition sysRun :: "'w System \<Rightarrow> Cmd \<Rightarrow> 'w state \<Rightarrow> (bytes \<times> err option) \<times> 'w state" where
  "sysRun sys c s =
     (case Run sys c (world s) of
        (r, w) \<Rightarrow> (r, s\<lparr>world := w, calls := calls s @ [Call_Run c]\<rparr>))"

section \<open>Command construction\<close>

text \<open>\<open>filepath.IsAbs\<close> on Unix.\<close>
definition IsAbs :: "string \<Rightarrow> bool" where
  "IsAbs p = (case p of [] \<Rightarrow> False | c # _ \<Rightarrow> c = CHR ''/'')"

text \<open>The loop over \<open>argv\<close>: read each element, stop at the first that fails.\<close>
fun readArgv :: "nat \<Rightarrow> string read list \<Rightarrow> err + string list" where
  "readArgv i [] = Inr []"
| "readArgv i (a # as) =
     (case a of
        Inl e \<Rightarrow> Inl (Errorf ''argv[%d]: %v'' [ArgNat i, ArgErr (CapnpError e)])
      | Inr x \<Rightarrow> (case readArgv (Suc i) as of Inl e \<Rightarrow> Inl e | Inr xs \<Rightarrow> Inr (x # xs)))"

text \<open>The loop over \<open>c.Env\<close>: \<open>name=value\<close> for each pair, stop at the first bad name.\<close>
fun buildEnv :: "nat \<Rightarrow> (bytes read \<times> bytes) list \<Rightarrow> err + string list" where
  "buildEnv i [] = Inr []"
| "buildEnv i ((k, v) # es) =
     (case k of
        Inl e \<Rightarrow> Inl (Errorf ''getting environment[%d]: %v'' [ArgNat i, ArgErr (CapnpError e)])
      | Inr k \<Rightarrow>
          if length k = 0 then Inl (Errorf ''environment[%d] missing name'' [ArgNat i])
          else (case buildEnv (Suc i) es of
                  Inl e \<Rightarrow> Inl e
                | Inr xs \<Rightarrow> Inr ((k @ ''='' @ v) # xs)))"

definition buildCommand :: "string \<Rightarrow> Exec_Command \<Rightarrow> err + Cmd" where
  "buildCommand root cmd =
     (case (case cmd_Which cmd of
              Command_argv argList \<Rightarrow>
                if length argList = 0 then Inl (Errorf ''0-length argv'' [])
                else (case readArgv 0 argList of
                        Inl e \<Rightarrow> Inl e
                      | Inr argv \<Rightarrow>
                          if \<not> IsAbs (argv ! 0)
                          then Inl (Errorf ''argv[0] (%q) is not an absolute path'' [ArgStr (argv ! 0)])
                          else Inr \<lparr>Path = argv ! 0, Args = argv, Env = [], Dir = []\<rparr>)
            | Command_other w \<Rightarrow> Inl (Errorf ''unsupported command type %v'' [ArgNat w])) of
        Inl e \<Rightarrow> Inl e
      | Inr c \<Rightarrow>
          (case buildEnv 0 (Environment cmd) of
             Inl e \<Rightarrow> Inl e
           | Inr env \<Rightarrow>
               (let c = c\<lparr>Env := env\<rparr>; c = c\<lparr>Dir := WorkingDirectory cmd\<rparr> in
                if Dir c = [] then Inr (c\<lparr>Dir := root\<rparr>)
                else if \<not> IsAbs (Dir c)
                then Inl (Errorf ''working directory %q is not absolute'' [ArgStr (Dir c)])
                else Inr c)))"

section \<open>Resource executors\<close>

definition applyFile :: "'w System \<Rightarrow> File \<Rightarrow> 'w state \<Rightarrow> err option \<times> 'w state" where
  "applyFile sys f s =
     (case file_Path f of
        Inl e \<Rightarrow> (Some (Errorf ''read file path from catalog: %v'' [ArgErr (CapnpError e)]), s)
      | Inr path \<Rightarrow>
          if path = [] then (Some (ErrorsNew ''file path is empty''), s)
          else
            (case file_Which f of
               File_plain (Some c) \<Rightarrow>
                 (case c of
                    Inl e \<Rightarrow>
                      (Some (Errorf ''read content from catalog: %v'' [ArgErr (CapnpError e)]), s)
                  | Inr content \<Rightarrow>
                      (case sysWriteFile sys path content 438 s of
                         (Some e, s1) \<Rightarrow> (Some e, s1)
                       | (None, s1) \<Rightarrow> (None, s1)))
             | File_plain None \<Rightarrow>
                 (case sysLstat sys path s of
                    (Inl e, s1) \<Rightarrow> (Some e, s1)
                  | (Inr info, s1) \<Rightarrow>
                      if \<not> IsRegular (Mode info)
                      then (Some (Errorf ''%s is not a regular file'' []), s1)
                      else (None, s1))
             | File_directory \<Rightarrow>
                 (case sysMkdir sys path 511 s of
                    (None, s1) \<Rightarrow> (None, s1)
                  | (Some e, s1) \<Rightarrow>
                      if \<not> IsExist e then (Some e, s1)
                      else
                        (case sysLstat sys path s1 of
                           (Inl e2, s2) \<Rightarrow>
                             (Some (Errorf ''determine state of %s: %v'' [ArgStr path, ArgErr e2]), s2)
                         | (Inr info, s2) \<Rightarrow>
                             if \<not> IsDir info
                             then (Some (Errorf ''%s is not a directory'' [ArgStr path]), s2)
                             else (None, s2)))
             | File_symlink t \<Rightarrow>
                 (case t of
                    Inl e \<Rightarrow>
                      (Some (Errorf ''read target from catalog: %v'' [ArgErr (CapnpError e)]), s)
                  | Inr target \<Rightarrow>
                      (case sysSymlink sys target path s of
                         (None, s1) \<Rightarrow> (None, s1)
                       | (Some e, s1) \<Rightarrow>
                           if \<not> IsExist e then (Some e, s1)
                           else
                             (case sysLstat sys path s1 of
                                (Inl e2, s2) \<Rightarrow>
                                  (Some (Errorf ''determine state of %s: %v''
                                           [ArgStr path, ArgErr e2]), s2)
                              | (Inr info, s2) \<Rightarrow>
                                  if Mode info AND ModeType \<noteq> ModeSymlink
                                  then (Some (Errorf ''%s is not a symlink'' [ArgStr path]), s2)
                                  else
                                    (case sysReadlink sys path s2 of
                                       (Inl e3, s3) \<Rightarrow> (Some e3, s3)
                                     | (Inr actual, s3) \<Rightarrow>
                                         if actual = target then (None, s3)
                                         else
                                           (case sysRemove sys path s3 of
                                              (Some e4, s4) \<Rightarrow>
                                                (Some (Errorf ''retargeting %s: %v''
                                                         [ArgStr path, ArgErr e4]), s4)
                                            | (None, s4) \<Rightarrow>
                                                (case sysSymlink sys target path s4 of
                                                   (Some e5, s5) \<Rightarrow>
                                                     (Some (Errorf ''retargeting %s: %v''
                                                              [ArgStr path, ArgErr e5]), s5)
                                                 | (None, s5) \<Rightarrow> (None, s5)))))))
             | File_absent \<Rightarrow>
                 (case sysRemove sys path s of
                    (None, s1) \<Rightarrow> (None, s1)
                  | (Some e, s1) \<Rightarrow> if \<not> IsNotExist e then (Some e, s1) else (None, s1))
             | File_other w \<Rightarrow> (Some (Errorf ''unsupported file directive %v'' [ArgNat w]), s)))"

text \<open>The part of \<open>applyExec\<close> after the switch on the condition: the main command.\<close>
definition runMain :: "'w System \<Rightarrow> Exec \<Rightarrow> 'w state \<Rightarrow> err option \<times> 'w state" where
  "runMain sys e s =
     (case Command e of
        Inl x \<Rightarrow> (Some (Errorf ''command: %v'' [ArgErr (CapnpError x)]), s)
      | Inr main \<Rightarrow>
          (case buildCommand (LocalRoot sys) main of
             Inl x \<Rightarrow> (Some (Errorf ''command: %v'' [ArgErr x]), s)
           | Inr cmd \<Rightarrow>
               (case sysRun sys cmd s of
                  ((out, Some x), s1) \<Rightarrow>
                    (Some (errorWithOutput out (Errorf ''command: %v'' [ArgErr x])), s1)
                | ((out, None), s1) \<Rightarrow> (None, s1))))"

definition applyExec :: "'w System \<Rightarrow> Exec \<Rightarrow> 'w state \<Rightarrow> err option \<times> 'w state" where
  "applyExec sys e s =
     (case Condition e of
        Cond_always \<Rightarrow> runMain sys e s
      | Cond_onlyIf c \<Rightarrow>
          (case c of
             Inl x \<Rightarrow> (Some (Errorf ''condition: %v'' [ArgErr (CapnpError x)]), s)
           | Inr cond \<Rightarrow>
               (case buildCommand (LocalRoot sys) cond of
                  Inl x \<Rightarrow> (Some (Errorf ''condition: %v'' [ArgErr x]), s)
                | Inr cmd \<Rightarrow>
                    (case sysRun sys cmd s of
                       ((out, Some x), s1) \<Rightarrow>
                         if isExitError x then (None, s1)
                         else (Some (errorWithOutput out (Errorf ''condition: %v'' [ArgErr x])), s1)
                     | ((out, None), s1) \<Rightarrow> runMain sys e s1)))
      | Cond_unless c \<Rightarrow>
          (case c of
             Inl x \<Rightarrow> (Some (Errorf ''condition: %v'' [ArgErr (CapnpError x)]), s)
           | Inr cond \<Rightarrow>
               (case buildCommand (LocalRoot sys) cond of
                  Inl x \<Rightarrow> (Some (Errorf ''condition: %v'' [ArgErr x]), s)
                | Inr cmd \<Rightarrow>
                    (case sysRun sys cmd s of
                       ((out, None), s1) \<Rightarrow> (None, s1)
                     | ((out, Some x), s1) \<Rightarrow>
                         if \<not> isExitError x
                         then (Some (errorWithOutput out (Errorf ''condition: %v'' [ArgErr x])), s1)
                         else runMain sys e s1)))
      | Cond_fileAbsent path \<Rightarrow>
          (case sysLstat sys path s of
             (Inr info, s1) \<Rightarrow> (None, s1)
           | (Inl x, s1) \<Rightarrow>
               if \<not> IsNotExist x then (Some (Errorf ''condition: %v'' [ArgErr x]), s1)
               else runMain sys e s1)
      | Cond_other w \<Rightarrow> (Some (Errorf ''unknown condition %v'' [ArgNat w]), s))"

definition applyResource :: "'w System \<Rightarrow> Resource \<Rightarrow> 'w state \<Rightarrow> err option \<times> 'w state" where
  "applyResource sys r s =
     (case Which r of
        Resource_noop \<Rightarrow> (None, s)
      | Resource_file f \<Rightarrow>
          (case f of Inl x \<Rightarrow> (Some (CapnpError x), s) | Inr f \<Rightarrow> applyFile sys f s)
      | Resource_exec e \<Rightarrow>
          (case e of Inl x \<Rightarrow> (Some (CapnpError x), s) | Inr e \<Rightarrow> applyExec sys e s)
      | Resource_other w \<Rightarrow> (Some (Errorf ''unknown type %v'' [ArgNat w]), s))"

section \<open>Dependency graph\<close>

text \<open>
  Modelled from the spec: the package depgraph is missing. Sections 3, 4.1 and 9 of the
  spec: a node is a resource plus a status; a status is \<open>pending\<close>, \<open>done\<close>, \<open>failed\<close>
  or \<open>skipped\<close> (\<open>ready\<close> is the set \<open>ready()\<close> computes: pending nodes whose
  dependencies are all done); node handles are indices; the dependencies of a node are
  resolved to handles once, when the graph is built.
\<close>
datatype node_status = NodePending | NodeDone | NodeFailed | NodeSkipped

record Node =
  resource :: Resource
  deps :: "nat list"
  status :: node_status

type_synonym Graph = "Node list"

fun indexOf :: "'a \<Rightarrow> 'a list \<Rightarrow> nat option" where
  "indexOf x [] = None"
| "indexOf x (y # ys) = (if x = y then Some 0 else map_option Suc (indexOf x ys))"

fun firstDup :: "'a list \<Rightarrow> 'a option" where
  "firstDup [] = None"
| "firstDup (x # xs) = (if x \<in> set xs then Some x else firstDup xs)"

text \<open>
  Modelled from the spec: the dependency IDs of one resource resolved against the index,
  duplicates collapsed (section 3).
\<close>
definition resolve :: "64 word list \<Rightarrow> 64 word list \<Rightarrow> nat list" where
  "resolve ids ds =
     remdups (concat (map (\<lambda>d. case indexOf d ids of Some i \<Rightarrow> [i] | None \<Rightarrow> []) ds))"

text \<open>
  Modelled from the spec: the Kahn-style drain of section 4.1. Each round emits the
  nodes not yet emitted whose dependencies have all been emitted.
\<close>
fun drain :: "nat list list \<Rightarrow> nat \<Rightarrow> nat list \<Rightarrow> nat list" where
  "drain es 0 acc = acc"
| "drain es (Suc k) acc =
     drain es k
       (acc @ filter (\<lambda>i. i \<notin> set acc \<and> list_all (\<lambda>d. d \<in> set acc) (es ! i)) [0..<length es])"

text \<open>
  Modelled from the spec: \<open>depgraph.New\<close> (section 4.1): index the resources by ID and
  reject a zero ID and duplicates; resolve every dependency and reject a missing one;
  reject a cycle, naming the nodes the drain could not emit. Every node starts pending.
\<close>
definition New :: "Resource list \<Rightarrow> construction_error + Graph" where
  "New res =
     (let ids = map ID res in
      if 0 \<in> set ids then Inl ZeroID
      else
        (case firstDup ids of
           Some d \<Rightarrow> Inl (DuplicateID d)
         | None \<Rightarrow>
             (case List.find (\<lambda>(a, b). b \<notin> set ids)
                     (concat (map (\<lambda>r. map (\<lambda>d. (ID r, d)) (Dependencies r)) res)) of
                Some (a, b) \<Rightarrow> Inl (MissingDep a b)
              | None \<Rightarrow>
                  (let es = map (\<lambda>r. resolve ids (Dependencies r)) res;
                       order = drain es (length es) [];
                       left = filter (\<lambda>i. i \<notin> set order) [0..<length es]
                   in if left \<noteq> [] then Inl (Cycle (map (\<lambda>i. ids ! i) left))
                      else Inr (map (\<lambda>(r, ds). \<lparr>resource = r, deps = ds, status = NodePending\<rparr>)
                                  (zip res es))))))"

text \<open>Modelled from the spec: \<open>done()\<close>, true iff every node has a terminal status.\<close>
definition Done :: "Graph \<Rightarrow> bool" where
  "Done g = list_all (\<lambda>n. status n \<noteq> NodePending) g"

text \<open>
  Modelled from the spec: \<open>ready()\<close>, the pending nodes whose dependencies are all done,
  by ascending ID.
\<close>
definition Ready :: "Graph \<Rightarrow> nat list" where
  "Ready g =
     sort_key (\<lambda>i. ID (resource (g ! i)))
       (filter (\<lambda>i. status (g ! i) = NodePending
                  \<and> list_all (\<lambda>d. status (g ! d) = NodeDone) (deps (g ! i)))
          [0..<length g])"

text \<open>Modelled from the spec: \<open>mark(node)\<close> sets the status to done.\<close>
definition Mark :: "nat \<Rightarrow> Graph \<Rightarrow> Graph" where
  "Mark i g = g[i := (g ! i)\<lparr>status := NodeDone\<rparr>]"

text \<open>
  Modelled from the spec: one step of the reverse-edge traversal adds the nodes that
  depend on a node already reached; as many steps as there are nodes reach every
  descendant.
\<close>
definition reachStep :: "Graph \<Rightarrow> nat list \<Rightarrow> nat list" where
  "reachStep g S =
     S @ filter (\<lambda>j. j \<notin> set S \<and> list_ex (\<lambda>d. d \<in> set S) (deps (g ! j))) [0..<length g]"

fun reach :: "Graph \<Rightarrow> nat \<Rightarrow> nat list \<Rightarrow> nat list" where
  "reach g 0 S = S"
| "reach g (Suc k) S = reach g k (reachStep g S)"

definition Descendants :: "Graph \<Rightarrow> nat \<Rightarrow> nat list" where
  "Descendants g i = removeAll i (reach g (length g) [i])"

text \<open>
  Modelled from the spec: \<open>markFailure(node)\<close> sets the status to failed, marks every
  descendant as skipped, and returns the freshly skipped handles by ascending ID.
\<close>
definition MarkFailure :: "nat \<Rightarrow> Graph \<Rightarrow> Graph \<times> nat list" where
  "MarkFailure i g =
     (let D = Descendants g i;
          fresh = filter (\<lambda>j. status (g ! j) \<noteq> NodeSkipped) D
      in (map (\<lambda>j. if j = i then (g ! j)\<lparr>status := NodeFailed\<rparr>
                    else if j \<in> set D then (g ! j)\<lparr>status := NodeSkipped\<rparr>
                    else g ! j) [0..<length g],
          sort_key (\<lambda>j. ID (resource (g ! j))) fresh))"

definition Resource :: "Graph \<Rightarrow> nat \<Rightarrow> Resource" where
  "Resource g i = resource (g ! i)"

section \<open>Applier driver\<close>

text \<open>\<open>%d\<close> of an unsigned integer.\<close>
fun digits :: "nat \<Rightarrow> string" where
  "digits n =
     (if n < 10 then [char_of (48 + n)] else digits (n div 10) @ [char_of (48 + n mod 10)])"

declare digits.simps [simp del]

definition formatResource :: "Resource \<Rightarrow> string" where
  "formatResource r =
     (let c = Comment r in
      if c = [] then ''id='' @ digits (unat (ID r))
      else c @ '' (id='' @ digits (unat (ID r)) @ '')'')"

text \<open>\<open>strings.Join\<close>.\<close>
fun Join :: "string list \<Rightarrow> string \<Rightarrow> string" where
  "Join [] sep = []"
| "Join [x] sep = x"
| "Join (x # y # ys) sep = x @ sep @ Join (y # ys) sep"

definition logInfof :: "string \<Rightarrow> arg list \<Rightarrow> 'w state \<Rightarrow> 'w state" where
  "logInfof f as s = s\<lparr>logs := logs s @ [Infof f as]\<rparr>"

definition logError :: "err \<Rightarrow> 'w state \<Rightarrow> 'w state" where
  "logError e s = s\<lparr>logs := logs s @ [LogError e]\<rparr>"

text \<open>
  The context as the loop sees it: \<open>ctx.Err()\<close> at the current state, \<open>None\<close> while the
  channel \<open>ctx.Done()\<close> is open.
\<close>
type_synonym 'w Context = "'w state \<Rightarrow> ctx_err option"

text \<open>The handles of the pending nodes: each iteration of the loop takes one away.\<close>
definition pending :: "Graph \<Rightarrow> nat set" where
  "pending g = {i. i < length g \<and> status (g ! i) = NodePending}"

lemma finite_pending: "finite (pending g)"
  by (simp add: pending_def)

lemma Ready_subset_pending: "set (Ready g) \<subseteq> pending g"
  by (auto simp: Ready_def pending_def)

lemma pending_Mark: "cur \<in> pending g \<Longrightarrow> pending (Mark cur g) \<subset> pending g"
proof -
  assume c: "cur \<in> pending g"
  have "x \<in> pending g - {cur}" if x: "x \<in> pending (Mark cur g)" for x
  proof (cases "x = cur")
    case True
    with x show ?thesis by (auto simp: pending_def Mark_def)
  next
    case False
    with x show ?thesis by (simp add: pending_def Mark_def)
  qed
  with c show ?thesis by blast
qed

lemma pending_MarkFailure: "cur \<in> pending g \<Longrightarrow> pending (fst (MarkFailure cur g)) \<subset> pending g"
proof -
  assume c: "cur \<in> pending g"
  have "pending (fst (MarkFailure cur g)) \<subseteq> pending g - {cur}"
    by (auto simp: pending_def MarkFailure_def Let_def split: if_splits)
  with c show ?thesis by blast
qed

text \<open>
  The loop of \<open>applyCatalog\<close>, with the flag \<open>ok\<close> and the graph, which the source
  updates in place, passed along.
\<close>
function applyLoop ::
  "'w System \<Rightarrow> 'w Context \<Rightarrow> bool \<Rightarrow> Graph \<Rightarrow> 'w state \<Rightarrow> err option \<times> Graph \<times> 'w state" where
  "applyLoop sys ctx ok g s =
     (if Done g
      then (if \<not> ok then Some (ErrorsNew ''not all resources applied cleanly'') else None, g, s)
      else
        (case Ready g of
           [] \<Rightarrow> (Some (ErrorsNew ''graph not done, but has nothing to do''), g, s)
         | cur # _ \<Rightarrow>
             (case ctx s of
                Some c \<Rightarrow> (Some (CtxError c), g, s)
              | None \<Rightarrow>
                  (let res = Resource g cur;
                       s1 = logInfof ''applying: %s'' [ArgStr (formatResource res)] s;
                       rs = applyResource sys res s1;
                       s2 = (snd rs)\<lparr>ran := ran (snd rs) @ [(cur, fst rs)]\<rparr>
                   in case errorWithResource res (fst rs) of
                        None \<Rightarrow> applyLoop sys ctx ok (Mark cur g) s2
                      | Some e \<Rightarrow>
                          (let s3 = logError (toError e) s2;
                               gs = MarkFailure cur g;
                               skipped = snd gs;
                               s4 = (if length skipped > 0
                                     then logInfof ''skipping due to failure of %s: %s''
                                            [ArgStr (formatResource res),
                                             ArgStr (Join (map (\<lambda>j. formatResource (Resource (fst gs) j))
                                                             skipped) '', '')] s3
                                     else s3)
                           in applyLoop sys ctx False (fst gs) s4)))))"
  by pat_completeness auto
termination
proof (relation "measure (\<lambda>(sys, ctx, ok, g, s). card (pending g))", goal_cases)
  case 1
  show ?case by simp
next
  case (2 sys ctx ok g s cur rest)
  then have "cur \<in> pending g"
    using Ready_subset_pending [of g] by auto
  then show ?case
    using psubset_card_mono [OF finite_pending pending_Mark] by simp
next
  case (3 sys ctx ok g s cur rest res s1 rs s2 e s3 gs)
  then have "cur \<in> pending g"
    using Ready_subset_pending [of g] by auto
  then have "card (pending (fst (MarkFailure cur g))) < card (pending g)"
    by (rule psubset_card_mono [OF finite_pending pending_MarkFailure])
  with 3 show ?case by simp
qed

declare applyLoop.simps [simp del]

definition applyCatalog ::
  "'w System \<Rightarrow> 'w Context \<Rightarrow> Graph \<Rightarrow> 'w state \<Rightarrow> err option \<times> Graph \<times> 'w state" where
  "applyCatalog sys ctx g s = applyLoop sys ctx True g s"

definition Apply :: "'w System \<Rightarrow> 'w Context \<Rightarrow> Catalog \<Rightarrow> 'w state \<Rightarrow> err option \<times> 'w state" where
  "Apply sys ctx c s =
     (case New (Resources c) of
        Inl e \<Rightarrow> (Some (toError (ConstructionError e)), s)
      | Inr g \<Rightarrow>
          (case applyCatalog sys ctx g s of
             (None, g', s') \<Rightarrow> (None, s')
           | (Some e, g', s') \<Rightarrow> (Some (toError e), s')))"

section \<open>A host for the scenarios\<close>

text \<open>
  A \<open>System\<close> over a filesystem kept as an association list from paths to nodes, with
  two programs, \<open>/bin/true\<close> and \<open>/bin/false\<close>; running anything else fails to
  spawn. The scenarios of section 8 of the spec are run on it.
\<close>
datatype fake_node = FakeRegular bytes | FakeDirectory | FakeSymlink string

definition fakeMode :: "fake_node \<Rightarrow> FileMode" where
  "fakeMode n =
     (case n of FakeRegular _ \<Rightarrow> 420 | FakeDirectory \<Rightarrow> ModeDir OR 493
      | FakeSymlink _ \<Rightarrow> ModeSymlink OR 511)"

definition fakeSystem :: "(string \<times> fake_node) list System" where
  "fakeSystem =
     \<lparr>LocalRoot = ''/'',
      Lstat = (\<lambda>p w. case map_of w p of
                 None \<Rightarrow> (Inl (OsError NotExist ''lstat: no such file or directory''), w)
               | Some n \<Rightarrow> (Inr \<lparr>Mode = fakeMode n\<rparr>, w)),
      Mkdir = (\<lambda>p m w. case map_of w p of
                 None \<Rightarrow> (None, (p, FakeDirectory) # w)
               | Some n \<Rightarrow> (Some (OsError Exist ''mkdir: file exists''), w)),
      Symlink = (\<lambda>t p w. case map_of w p of
                 None \<Rightarrow> (None, (p, FakeSymlink t) # w)
               | Some n \<Rightarrow> (Some (OsError Exist ''symlink: file exists''), w)),
      Readlink = (\<lambda>p w. case map_of w p of
                 Some (FakeSymlink t) \<Rightarrow> (Inr t, w)
               | _ \<Rightarrow> (Inl (OsError Other ''readlink: invalid argument''), w)),
      Remove = (\<lambda>p w. case map_of w p of
                 None \<Rightarrow> (Some (OsError NotExist ''remove: no such file or directory''), w)
               | Some n \<Rightarrow> (None, filter (\<lambda>e. fst e \<noteq> p) w)),
      WriteFile = (\<lambda>p c m w. (None, (p, FakeRegular c) # filter (\<lambda>e. fst e \<noteq> p) w)),
      Run = (\<lambda>c w.
               if Path c = ''/bin/true'' then (([], None), w)
               else if Path c = ''/bin/false''
               then (([], Some (OsError Exit ''exit status 1'')), w)
               else ((''fork/exec: no such file or directory'',
                      Some (OsError Other ''fork/exec'')), w))\<rparr>"

definition start :: "'w \<Rightarrow> 'w state" where
  "start w = \<lparr>world = w, calls = [], logs = [], ran = []\<rparr>"

definition argvCommand :: "string list \<Rightarrow> Exec_Command" where
  "argvCommand argv =
     \<lparr>cmd_Which = Command_argv (map Inr argv), Environment = [], WorkingDirectory = []\<rparr>"

section \<open>What \<open>buildCommand\<close> returns\<close>

lemma readArgv_Inr: "readArgv i xs = Inr ys \<Longrightarrow> xs = map Inr ys"
  by (induction xs arbitrary: i ys) (auto split: sum.splits)

lemma buildEnv_Inr:
  "buildEnv i es = Inr xs \<Longrightarrow>
     \<exists>ps. es = map (\<lambda>(k, v). (Inr k, v)) ps \<and> xs = map (\<lambda>(k, v). k @ ''='' @ v) ps
          \<and> (\<forall>(k, v) \<in> set ps. k \<noteq> [])"
proof (induction es arbitrary: i xs)
  case Nil
  then show ?case by simp
next
  case (Cons a es)
  obtain k v where a: "a = (k, v)" by (cases a)
  from Cons.prems a obtain n ys where k: "k = Inr n" and n: "n \<noteq> []"
    and ys: "buildEnv (Suc i) es = Inr ys" and xs: "xs = (n @ ''='' @ v) # ys"
    by (auto split: sum.splits if_splits)
  from Cons.IH [OF ys] obtain ps where
    ps: "es = map (\<lambda>(k, v). (Inr k, v)) ps" "ys = map (\<lambda>(k, v). k @ ''='' @ v) ps"
        "\<forall>(k, v) \<in> set ps. k \<noteq> []"
    by blast
  show ?case
    by (rule exI [of _ "(n, v) # ps"]) (use a k n xs ps in auto)
qed

lemma buildEnv_Inl: "buildEnv i es = Inl e \<Longrightarrow> \<exists>f a. e = Errorf f a"
  by (induction es arbitrary: i) (auto split: sum.splits if_splits)

lemma readArgv_Inl: "readArgv i xs = Inl e \<Longrightarrow> \<exists>f a. e = Errorf f a"
  by (induction xs arbitrary: i) (auto split: sum.splits if_splits)

lemma buildEnv_empty_name: "(Inr [], v) \<in> set es \<Longrightarrow> \<exists>e. buildEnv i es = Inl e"
proof (induction es arbitrary: i)
  case Nil
  then show ?case by simp
next
  case (Cons a es)
  obtain k w where a: "a = (k, w)" by (cases a)
  show ?case
  proof (cases "a = (Inr [], v)")
    case True
    then show ?thesis by simp
  next
    case False
    with Cons.prems have "(Inr [], v) \<in> set es" by simp
    from Cons.IH [OF this, of "Suc i"] show ?thesis
      by (auto simp: a split: sum.splits)
  qed
qed

lemma buildCommand_Inl: "buildCommand root cmd = Inl e \<Longrightarrow> \<exists>f a. e = Errorf f a"
  by (auto simp: buildCommand_def Let_def split: Command_Which.splits sum.splits if_splits
      dest: buildEnv_Inl readArgv_Inl)

lemma buildCommand_Env:
  "buildCommand root cmd = Inr c \<Longrightarrow> buildEnv 0 (Environment cmd) = Inr (Env c)"
  by (auto simp: buildCommand_def Let_def split: Command_Which.splits sum.splits if_splits)

lemma runMain_calls:
  "Command e = Inr cmd \<Longrightarrow> buildCommand (LocalRoot sys) cmd = Inr c \<Longrightarrow>
     calls (snd (runMain sys e s)) = calls s @ [Call_Run c]"
  by (auto simp: runMain_def sysRun_def split: prod.splits option.splits)

text \<open>
  C7: a descriptor that \<open>buildCommand\<close> returns has as \<open>Env\<close> exactly the pairs of the
  catalog, each as \<open>name=value\<close>, in the order listed, every name read without error and
  non-empty, and nothing else; with a pair whose name is empty \<open>buildCommand\<close> returns no
  descriptor but an error built by \<open>errorf\<close>; and the descriptor handed to
  \<open>System.Run\<close> for the main command is the one \<open>buildCommand\<close> returned.
\<close>
theorem buildCommand_environment:
  "(buildCommand root cmd = Inr c \<longrightarrow>
      (\<exists>ps. Environment cmd = map (\<lambda>(k, v). (Inr k, v)) ps
           \<and> Env c = map (\<lambda>(k, v). k @ ''='' @ v) ps
           \<and> (\<forall>(k, v) \<in> set ps. k \<noteq> [])))
   \<and> ((Inr [], v) \<in> set (Environment cmd) \<longrightarrow>
        (\<exists>f a. buildCommand root cmd = Inl (Errorf f a)))
   \<and> (Condition e = Cond_always \<and> Command e = Inr cmd
        \<and> buildCommand (LocalRoot sys) cmd = Inr c \<longrightarrow>
        calls (snd (applyExec sys e s)) = calls s @ [Call_Run c])"
proof (intro conjI impI)
  assume "buildCommand root cmd = Inr c"
  then show "\<exists>ps. Environment cmd = map (\<lambda>(k, v). (Inr k, v)) ps
           \<and> Env c = map (\<lambda>(k, v). k @ ''='' @ v) ps
           \<and> (\<forall>(k, v) \<in> set ps. k \<noteq> [])"
    by (intro buildEnv_Inr [of 0] buildCommand_Env)
next
  assume bad: "(Inr [], v) \<in> set (Environment cmd)"
  have "\<not> (\<exists>c. buildCommand root cmd = Inr c)"
  proof
    assume "\<exists>c. buildCommand root cmd = Inr c"
    then obtain c where "buildCommand root cmd = Inr c" ..
    from buildCommand_Env [OF this] buildEnv_empty_name [OF bad, of 0]
    show False by auto
  qed
  then obtain x where "buildCommand root cmd = Inl x"
    by (cases "buildCommand root cmd") auto
  with buildCommand_Inl [OF this] show "\<exists>f a. buildCommand root cmd = Inl (Errorf f a)"
    by auto
next
  assume "Condition e = Cond_always \<and> Command e = Inr cmd
        \<and> buildCommand (LocalRoot sys) cmd = Inr c"
  then show "calls (snd (applyExec sys e s)) = calls s @ [Call_Run c]"
    by (simp add: applyExec_def runMain_calls)
qed

definition envCommand :: Exec_Command where
  "envCommand =
     \<lparr>cmd_Which = Command_argv [Inr ''/usr/bin/env''],
      Environment = [(Inr ''PATH'', ''/bin''), (Inr ''HOME'', ''/root'')],
      WorkingDirectory = ''/tmp''\<rparr>"

lemma envCommand_build:
  "buildCommand ''/'' envCommand =
     Inr \<lparr>Path = ''/usr/bin/env'', Args = [''/usr/bin/env''],
          Env = [''PATH=/bin'', ''HOME=/root''], Dir = ''/tmp''\<rparr>"
  by (simp add: buildCommand_def envCommand_def IsAbs_def)

theorem buildCommand_environment_witness:
  "buildCommand ''/'' envCommand =
     Inr \<lparr>Path = ''/usr/bin/env'', Args = [''/usr/bin/env''],
          Env = [''PATH=/bin'', ''HOME=/root''], Dir = ''/tmp''\<rparr>
   \<and> (\<exists>f a. buildCommand ''/'' (envCommand\<lparr>Environment := [(Inr ''A'', ''1''), (Inr [], ''2'')]\<rparr>)
         = Inl (Errorf f a))
   \<and> calls (snd (applyExec fakeSystem \<lparr>Condition = Cond_always, Command = Inr envCommand\<rparr>
               (start [])))
       = [Call_Run \<lparr>Path = ''/usr/bin/env'', Args = [''/usr/bin/env''],
                    Env = [''PATH=/bin'', ''HOME=/root''], Dir = ''/tmp''\<rparr>]"
proof (intro conjI)
  show "buildCommand ''/'' envCommand =
     Inr \<lparr>Path = ''/usr/bin/env'', Args = [''/usr/bin/env''],
          Env = [''PATH=/bin'', ''HOME=/root''], Dir = ''/tmp''\<rparr>"
    by (rule envCommand_build)
  show "\<exists>f a. buildCommand ''/'' (envCommand\<lparr>Environment := [(Inr ''A'', ''1''), (Inr [], ''2'')]\<rparr>)
         = Inl (Errorf f a)"
  proof -
    have "(Inr [], ''2'')
            \<in> set (Environment (envCommand\<lparr>Environment := [(Inr ''A'', ''1''), (Inr [], ''2'')]\<rparr>))"
      by simp
    with buildCommand_environment
      [of "''/''" "envCommand\<lparr>Environment := [(Inr ''A'', ''1''), (Inr [], ''2'')]\<rparr>"
          undefined "''2''" undefined undefined undefined]
    show ?thesis by blast
  qed
  show "calls (snd (applyExec fakeSystem \<lparr>Condition = Cond_always, Command = Inr envCommand\<rparr>
               (start [])))
       = [Call_Run \<lparr>Path = ''/usr/bin/env'', Args = [''/usr/bin/env''],
                    Env = [''PATH=/bin'', ''HOME=/root''], Dir = ''/tmp''\<rparr>]"
    using buildCommand_environment
      [of "''/''" envCommand
          "\<lparr>Path = ''/usr/bin/env'', Args = [''/usr/bin/env''],
            Env = [''PATH=/bin'', ''HOME=/root''], Dir = ''/tmp''\<rparr>" undefined
          "\<lparr>Condition = Cond_always, Command = Inr envCommand\<rparr>" fakeSystem "start []"]
      envCommand_build
    by (simp add: fakeSystem_def start_def)
qed


text \<open>
  C10: a descriptor that \<open>buildCommand\<close> returns for an argv command has the whole
  argv, read without error and non-empty, as \<open>Args\<close>, its first element as \<open>Path\<close>
  (so \<open>Args[0] = Path\<close>), and as \<open>Dir\<close> the working directory of the catalog, or
  \<open>LocalRoot\<close> when that is empty.
\<close>
theorem buildCommand_argv:
  assumes "cmd_Which cmd = Command_argv argList" and "buildCommand root cmd = Inr c"
  shows "argList = map Inr (Args c) \<and> Args c \<noteq> [] \<and> Path c = Args c ! 0
         \<and> hd (Args c) = Path c
         \<and> Dir c = (if WorkingDirectory cmd = [] then root else WorkingDirectory cmd)"
proof -
  from assms obtain argv where argv: "readArgv 0 argList = Inr argv" and ne: "argList \<noteq> []"
    and c: "Path c = argv ! 0" "Args c = argv"
      "Dir c = (if WorkingDirectory cmd = [] then root else WorkingDirectory cmd)"
    by (auto simp: buildCommand_def Let_def split: sum.splits if_splits)
  from readArgv_Inr [OF argv] have m: "argList = map Inr argv" .
  with ne have "argv \<noteq> []" by auto
  with c m show ?thesis by (simp add: hd_conv_nth)
qed

theorem buildCommand_argv_witness:
  "cmd_Which envCommand = Command_argv [Inr ''/usr/bin/env'']
   \<and> buildCommand ''/'' envCommand =
       Inr \<lparr>Path = ''/usr/bin/env'', Args = [''/usr/bin/env''],
            Env = [''PATH=/bin'', ''HOME=/root''], Dir = ''/tmp''\<rparr>
   \<and> buildCommand ''/srv'' (argvCommand [''/bin/ls'', ''-l'']) =
       Inr \<lparr>Path = ''/bin/ls'', Args = [''/bin/ls'', ''-l''], Env = [], Dir = ''/srv''\<rparr>"
proof -
  have w: "cmd_Which envCommand = Command_argv [Inr ''/usr/bin/env'']"
    by (simp add: envCommand_def)
  have ls: "buildCommand ''/srv'' (argvCommand [''/bin/ls'', ''-l'']) =
       Inr \<lparr>Path = ''/bin/ls'', Args = [''/bin/ls'', ''-l''], Env = [], Dir = ''/srv''\<rparr>"
    by (simp add: buildCommand_def argvCommand_def IsAbs_def)
  from buildCommand_argv [OF w envCommand_build] w envCommand_build ls
  show ?thesis by simp
qed

section \<open>What the file executor does\<close>

text \<open>
  C8: with an empty path \<open>applyFile\<close> returns the error \<open>file path is empty\<close> and
  leaves the state as it was: no \<open>System\<close> method is invoked, whatever the sub-variant.
\<close>
theorem applyFile_empty_path:
  "file_Path f = Inr [] \<Longrightarrow> applyFile sys f s = (Some (ErrorsNew ''file path is empty''), s)"
  by (simp add: applyFile_def)

theorem applyFile_empty_path_witness:
  "applyFile fakeSystem \<lparr>file_Path = Inr [], file_Which = File_plain (Some (Inr ''data''))\<rparr>
     (start []) = (Some (ErrorsNew ''file path is empty''), start [])
   \<and> applyFile fakeSystem \<lparr>file_Path = Inr [], file_Which = File_other 7\<rparr>
     (start []) = (Some (ErrorsNew ''file path is empty''), start [])"
  using applyFile_empty_path
    [of "\<lparr>file_Path = Inr [], file_Which = File_plain (Some (Inr ''data''))\<rparr>" fakeSystem "start []"]
    applyFile_empty_path
    [of "\<lparr>file_Path = Inr [], file_Which = File_other 7\<rparr>" fakeSystem "start []"]
  by simp

text \<open>
  Modelled from the spec: the error kind \<open>State\<close> of section 7, "observed filesystem
  entity differs in kind from declared intent". The source has no error kinds; the errors
  of the source that state such a difference are the ones the file executor builds when
  \<open>Lstat\<close> shows a node of another kind.
\<close>
definition StateError :: "err \<Rightarrow> bool" where
  "StateError e =
     (case e of
        Errorf f a \<Rightarrow>
          f = ''%s is not a regular file'' \<or> f = ''%s is not a directory''
          \<or> f = ''%s is not a symlink''
      | _ \<Rightarrow> False)"

definition missingFile :: File where
  "missingFile = \<lparr>file_Path = Inr ''/etc/motd'', file_Which = File_plain None\<rparr>"

text \<open>
  C6 as stated fails: when the path is missing, \<open>applyFile\<close> returns the error of
  \<open>Lstat\<close> as it is, which says that the path does not exist, not that its kind differs.
\<close>
theorem applyFile_plain_missing_counterexample:
  "fst (applyFile fakeSystem missingFile (start []))
     = Some (OsError NotExist ''lstat: no such file or directory'')
   \<and> \<not> StateError (OsError NotExist ''lstat: no such file or directory'')"
  by (simp add: applyFile_def missingFile_def sysLstat_def fakeSystem_def start_def StateError_def)

text \<open>
  C6 amended: for a plain file resource without content (its path read and non-empty),
  \<open>applyFile\<close> calls \<open>Lstat(path)\<close> and nothing else, and succeeds iff \<open>Lstat\<close>
  succeeds and describes a regular file; when \<open>Lstat\<close> fails it returns that error
  unchanged; when the entry is of another kind it returns a \<open>StateError\<close>.
\<close>
theorem applyFile_plain_no_content:
  assumes "file_Path f = Inr path" and "path \<noteq> []" and "file_Which f = File_plain None"
    and "Lstat sys path (world s) = (r, w)"
  shows "snd (applyFile sys f s) = s\<lparr>world := w, calls := calls s @ [Call_Lstat path]\<rparr>
    \<and> (fst (applyFile sys f s) = None \<longleftrightarrow> (\<exists>info. r = Inr info \<and> IsRegular (Mode info)))
    \<and> (\<forall>e. r = Inl e \<longrightarrow> fst (applyFile sys f s) = Some e)
    \<and> (\<forall>info. r = Inr info \<and> \<not> IsRegular (Mode info) \<longrightarrow>
          (\<exists>e. fst (applyFile sys f s) = Some e \<and> StateError e))"
  using assms
  by (cases r) (auto simp: applyFile_def sysLstat_def StateError_def)

lemma fakeMode_regular: "IsRegular (fakeMode (FakeRegular c))"
  by (simp add: IsRegular_def fakeMode_def ModeType_def ModeDir_def ModeSymlink_def
      ModeNamedPipe_def ModeSocket_def ModeDevice_def ModeCharDevice_def ModeIrregular_def)

lemma fakeMode_directory: "\<not> IsRegular (fakeMode FakeDirectory)"
  by (simp add: IsRegular_def fakeMode_def ModeType_def ModeDir_def ModeSymlink_def
      ModeNamedPipe_def ModeSocket_def ModeDevice_def ModeCharDevice_def ModeIrregular_def)

lemma fakeMode_symlink: "fakeMode (FakeSymlink t) AND ModeType = ModeSymlink"
  by (simp add: IsRegular_def fakeMode_def ModeType_def ModeDir_def ModeSymlink_def
      ModeNamedPipe_def ModeSocket_def ModeDevice_def ModeCharDevice_def ModeIrregular_def)

theorem applyFile_plain_no_content_witness:
  "fst (applyFile fakeSystem missingFile (start [(''/etc/motd'', FakeRegular ''hi'')])) = None
   \<and> fst (applyFile fakeSystem missingFile (start []))
       = Some (OsError NotExist ''lstat: no such file or directory'')
   \<and> fst (applyFile fakeSystem missingFile (start [(''/etc/motd'', FakeDirectory)]))
       = Some (Errorf ''%s is not a regular file'' [])
   \<and> calls (snd (applyFile fakeSystem missingFile (start [(''/etc/motd'', FakeDirectory)])))
       = [Call_Lstat ''/etc/motd'']"
proof -
  have p: "file_Path missingFile = Inr ''/etc/motd''" "''/etc/motd'' \<noteq> []"
    "file_Which missingFile = File_plain None"
    by (simp_all add: missingFile_def)
  have l: "Lstat fakeSystem ''/etc/motd'' (world (start [(''/etc/motd'', FakeRegular ''hi'')]))
             = (Inr \<lparr>Mode = fakeMode (FakeRegular ''hi'')\<rparr>, [(''/etc/motd'', FakeRegular ''hi'')])"
    by (simp add: fakeSystem_def start_def)
  from applyFile_plain_no_content [OF p l] fakeMode_regular
  have "fst (applyFile fakeSystem missingFile (start [(''/etc/motd'', FakeRegular ''hi'')])) = None"
    by simp
  moreover have "fst (applyFile fakeSystem missingFile (start []))
       = Some (OsError NotExist ''lstat: no such file or directory'')"
    by (simp add: applyFile_def missingFile_def sysLstat_def fakeSystem_def start_def)
  moreover have "applyFile fakeSystem missingFile (start [(''/etc/motd'', FakeDirectory)])
       = (Some (Errorf ''%s is not a regular file'' []),
          \<lparr>world = [(''/etc/motd'', FakeDirectory)], calls = [Call_Lstat ''/etc/motd''],
           logs = [], ran = []\<rparr>)"
    using fakeMode_directory
    by (simp add: applyFile_def missingFile_def sysLstat_def fakeSystem_def start_def)
  ultimately show ?thesis by simp
qed

text \<open>
  C5: for a symlink resource (path and target read, path non-empty) whose path already
  exists (the first \<open>Symlink\<close> returns an exists error) as a symlink (\<open>Lstat\<close>), and
  \<open>Readlink\<close> succeeds: when the link read equals the target, \<open>applyFile\<close> succeeds
  after exactly \<open>Symlink\<close>, \<open>Lstat\<close>, \<open>Readlink\<close>; when it differs, the calls are
  exactly \<open>Symlink\<close>, \<open>Lstat\<close>, \<open>Readlink\<close>, \<open>Remove\<close> and, if \<open>Remove\<close>
  succeeds, \<open>Symlink\<close> again; \<open>applyFile\<close> succeeds when both succeed, and reports an
  error of either with the \<open>retargeting\<close> prefix.
\<close>
theorem applyFile_symlink_retarget:
  assumes "file_Path f = Inr path" and "path \<noteq> []"
    and "file_Which f = File_symlink (Inr target)"
    and "Symlink sys target path (world s) = (Some e1, w1)" and "IsExist e1"
    and "Lstat sys path w1 = (Inr info, w2)" and "Mode info AND ModeType = ModeSymlink"
    and "Readlink sys path w2 = (Inr actual, w3)"
    and "Remove sys path w3 = (r4, w4)"
    and "Symlink sys target path w4 = (r5, w5)"
  shows "applyFile sys f s =
    (if actual = target
     then (None, s\<lparr>world := w3,
             calls := calls s @ [Call_Symlink target path, Call_Lstat path, Call_Readlink path]\<rparr>)
     else (case r4 of
        Some e4 \<Rightarrow>
          (Some (Errorf ''retargeting %s: %v'' [ArgStr path, ArgErr e4]),
           s\<lparr>world := w4,
             calls := calls s @ [Call_Symlink target path, Call_Lstat path, Call_Readlink path,
                                 Call_Remove path]\<rparr>)
      | None \<Rightarrow>
          (case r5 of
             Some e5 \<Rightarrow> Some (Errorf ''retargeting %s: %v'' [ArgStr path, ArgErr e5])
           | None \<Rightarrow> None,
           s\<lparr>world := w5,
             calls := calls s @ [Call_Symlink target path, Call_Lstat path, Call_Readlink path,
                                 Call_Remove path, Call_Symlink target path]\<rparr>)))"
  using assms
  by (simp add: applyFile_def sysSymlink_def sysLstat_def sysReadlink_def sysRemove_def
      split: option.splits)

definition linkFile :: File where
  "linkFile = \<lparr>file_Path = Inr ''/tmp/link'', file_Which = File_symlink (Inr ''/new'')\<rparr>"

theorem applyFile_symlink_retarget_witness:
  "applyFile fakeSystem linkFile (start [(''/tmp/link'', FakeSymlink ''/old'')]) =
     (None,
      \<lparr>world = [(''/tmp/link'', FakeSymlink ''/new'')],
       calls = [Call_Symlink ''/new'' ''/tmp/link'', Call_Lstat ''/tmp/link'',
                Call_Readlink ''/tmp/link'', Call_Remove ''/tmp/link'',
                Call_Symlink ''/new'' ''/tmp/link''],
       logs = [], ran = []\<rparr>)"
proof -
  let ?w = "[(''/tmp/link'', FakeSymlink ''/old'')]"
  have f: "file_Path linkFile = Inr ''/tmp/link''" "''/tmp/link'' \<noteq> []"
    "file_Which linkFile = File_symlink (Inr ''/new'')"
    by (simp_all add: linkFile_def)
  have 1: "Symlink fakeSystem ''/new'' ''/tmp/link'' (world (start ?w))
             = (Some (OsError Exist ''symlink: file exists''), ?w)"
    by (simp add: fakeSystem_def start_def)
  have 2: "IsExist (OsError Exist ''symlink: file exists'')"
    by (simp add: IsExist_def)
  have 3: "Lstat fakeSystem ''/tmp/link'' ?w = (Inr \<lparr>Mode = fakeMode (FakeSymlink ''/old'')\<rparr>, ?w)"
    by (simp add: fakeSystem_def)
  have 4: "Mode \<lparr>Mode = fakeMode (FakeSymlink ''/old'')\<rparr> AND ModeType = ModeSymlink"
    by (simp add: fakeMode_symlink)
  have 5: "Readlink fakeSystem ''/tmp/link'' ?w = (Inr ''/old'', ?w)"
    by (simp add: fakeSystem_def)
  have 6: "Remove fakeSystem ''/tmp/link'' ?w = (None, [])"
    by (simp add: fakeSystem_def)
  have 7: "Symlink fakeSystem ''/new'' ''/tmp/link'' [] = (None, [(''/tmp/link'', FakeSymlink ''/new'')])"
    by (simp add: fakeSystem_def)
  from applyFile_symlink_retarget [OF f 1 2 3 4 5 6 7]
  show ?thesis by (simp add: start_def)
qed

section \<open>What the exec executor does\<close>

lemma errorWithOutput_Errorf: "errorWithOutput out (Errorf f a) = Error None (Some out) (Errorf f a)"
  by (simp add: errorWithOutput_def toError_def)

text \<open>
  C3: for an exec resource with condition \<open>onlyIf(cmd)\<close> whose \<open>cmd\<close> builds, the
  executor runs \<open>cmd\<close> first. If that fails with an \<open>ExitError\<close> (non-zero exit), the
  executor returns success and that run is the only \<open>System\<close> call. If it fails
  otherwise, the executor returns an \<open>Error\<close> that carries the captured output and
  wraps the failure, and that run is again the only call. If it exits zero, the executor
  goes on to the main command, which (when it builds) is the next thing run.
\<close>
theorem applyExec_onlyIf:
  assumes "Condition e = Cond_onlyIf (Inr cond)"
    and "buildCommand (LocalRoot sys) cond = Inr cmd"
    and "Run sys cmd (world s) = ((out, r), w)"
  shows "(case r of
            Some x \<Rightarrow>
              applyExec sys e s =
                (if isExitError x then None
                 else Some (Error None (Some out) (Errorf ''condition: %v'' [ArgErr x])),
                 s\<lparr>world := w, calls := calls s @ [Call_Run cmd]\<rparr>)
          | None \<Rightarrow>
              applyExec sys e s = runMain sys e (s\<lparr>world := w, calls := calls s @ [Call_Run cmd]\<rparr>)
              \<and> (\<forall>main m. Command e = Inr main \<and> buildCommand (LocalRoot sys) main = Inr m \<longrightarrow>
                    calls (snd (applyExec sys e s)) = calls s @ [Call_Run cmd, Call_Run m]))"
  using assms
  by (auto simp: applyExec_def sysRun_def errorWithOutput_Errorf runMain_calls
      split: option.splits)

definition onlyIfExec :: "string \<Rightarrow> string \<Rightarrow> Exec" where
  "onlyIfExec c m =
     \<lparr>Condition = Cond_onlyIf (Inr (argvCommand [c])), Command = Inr (argvCommand [m])\<rparr>"

lemma argvCommand_build:
  "IsAbs a \<Longrightarrow> buildCommand root (argvCommand (a # as))
     = Inr \<lparr>Path = a, Args = a # as, Env = [], Dir = root\<rparr>"
proof -
  have "readArgv i (map Inr xs) = Inr xs" for i and xs :: "string list"
    by (induction xs arbitrary: i) auto
  then show "IsAbs a \<Longrightarrow> ?thesis"
    by (simp add: buildCommand_def argvCommand_def)
qed

theorem applyExec_onlyIf_witness:
  "applyExec fakeSystem (onlyIfExec ''/bin/false'' ''/bin/true'') (start []) =
     (None, \<lparr>world = [], calls = [Call_Run \<lparr>Path = ''/bin/false'', Args = [''/bin/false''],
                                           Env = [], Dir = ''/''\<rparr>], logs = [], ran = []\<rparr>)
   \<and> calls (snd (applyExec fakeSystem (onlyIfExec ''/bin/true'' ''/bin/false'') (start []))) =
       [Call_Run \<lparr>Path = ''/bin/true'', Args = [''/bin/true''], Env = [], Dir = ''/''\<rparr>,
        Call_Run \<lparr>Path = ''/bin/false'', Args = [''/bin/false''], Env = [], Dir = ''/''\<rparr>]
   \<and> applyExec fakeSystem (onlyIfExec ''/bin/nothing'' ''/bin/true'') (start []) =
       (Some (Error None (Some ''fork/exec: no such file or directory'')
                (Errorf ''condition: %v'' [ArgErr (OsError Other ''fork/exec'')])),
        \<lparr>world = [], calls = [Call_Run \<lparr>Path = ''/bin/nothing'', Args = [''/bin/nothing''],
                                       Env = [], Dir = ''/''\<rparr>], logs = [], ran = []\<rparr>)"
proof (intro conjI)
  have root: "LocalRoot fakeSystem = ''/''"
    by (simp add: fakeSystem_def)
  have b: "buildCommand (LocalRoot fakeSystem) (argvCommand [p])
             = Inr \<lparr>Path = p, Args = [p], Env = [], Dir = ''/''\<rparr>" if "IsAbs p" for p
    using that by (simp add: argvCommand_build root)
  have c: "Condition (onlyIfExec p q) = Cond_onlyIf (Inr (argvCommand [p]))"
    "Command (onlyIfExec p q) = Inr (argvCommand [q])" for p q
    by (simp_all add: onlyIfExec_def)
  have abs: "IsAbs ''/bin/false''" "IsAbs ''/bin/true''" "IsAbs ''/bin/nothing''"
    by (simp_all add: IsAbs_def)
  have r1: "Run fakeSystem \<lparr>Path = ''/bin/false'', Args = [''/bin/false''], Env = [], Dir = ''/''\<rparr>
              (world (start [])) = (([], Some (OsError Exit ''exit status 1'')), [])"
    by (simp add: fakeSystem_def start_def)
  from applyExec_onlyIf [OF c(1) b [OF abs(1)] r1]
  show "applyExec fakeSystem (onlyIfExec ''/bin/false'' ''/bin/true'') (start []) =
     (None, \<lparr>world = [], calls = [Call_Run \<lparr>Path = ''/bin/false'', Args = [''/bin/false''],
                                           Env = [], Dir = ''/''\<rparr>], logs = [], ran = []\<rparr>)"
    by (simp add: isExitError_def start_def)
  have r2: "Run fakeSystem \<lparr>Path = ''/bin/true'', Args = [''/bin/true''], Env = [], Dir = ''/''\<rparr>
              (world (start [])) = (([], None), [])"
    by (simp add: fakeSystem_def start_def)
  from applyExec_onlyIf [OF c(1) [of "''/bin/true''" "''/bin/false''"] b [OF abs(2)] r2,
      simplified option.case, THEN conjunct2]
  have "\<forall>main m. Command (onlyIfExec ''/bin/true'' ''/bin/false'') = Inr main
          \<and> buildCommand (LocalRoot fakeSystem) main = Inr m \<longrightarrow>
          calls (snd (applyExec fakeSystem (onlyIfExec ''/bin/true'' ''/bin/false'') (start []))) =
          [Call_Run \<lparr>Path = ''/bin/true'', Args = [''/bin/true''], Env = [], Dir = ''/''\<rparr>,
           Call_Run m]"
    by (simp add: start_def)
  with c(2) b [OF abs(1)]
  show "calls (snd (applyExec fakeSystem (onlyIfExec ''/bin/true'' ''/bin/false'') (start []))) =
       [Call_Run \<lparr>Path = ''/bin/true'', Args = [''/bin/true''], Env = [], Dir = ''/''\<rparr>,
        Call_Run \<lparr>Path = ''/bin/false'', Args = [''/bin/false''], Env = [], Dir = ''/''\<rparr>]"
    by (simp add: start_def)
  have r3: "Run fakeSystem \<lparr>Path = ''/bin/nothing'', Args = [''/bin/nothing''], Env = [], Dir = ''/''\<rparr>
              (world (start [])) = ((''fork/exec: no such file or directory'',
                      Some (OsError Other ''fork/exec'')), [])"
    by (simp add: fakeSystem_def start_def)
  from applyExec_onlyIf [OF c(1) b [OF abs(3)] r3]
  show "applyExec fakeSystem (onlyIfExec ''/bin/nothing'' ''/bin/true'') (start []) =
       (Some (Error None (Some ''fork/exec: no such file or directory'')
                (Errorf ''condition: %v'' [ArgErr (OsError Other ''fork/exec'')])),
        \<lparr>world = [], calls = [Call_Run \<lparr>Path = ''/bin/nothing'', Args = [''/bin/nothing''],
                                       Env = [], Dir = ''/''\<rparr>], logs = [], ran = []\<rparr>)"
    by (simp add: isExitError_def start_def)
qed


definition unlessCatalog :: Catalog where
  "unlessCatalog =
     \<lparr>Resources =
        [\<lparr>ID = 1, Comment = ''guarded'', Dependencies = [],
          Which = Resource_exec
                    (Inr \<lparr>Condition = Cond_unless (Inr (argvCommand [''/bin/true''])),
                          Command = Inr (argvCommand [''/bin/false''])\<rparr>)\<rparr>]\<rparr>"

definition unlessGraph :: "node_status \<Rightarrow> Graph" where
  "unlessGraph st = [\<lparr>resource = hd (Resources unlessCatalog), deps = [], status = st\<rparr>]"

text \<open>
  C4: for an exec resource with condition \<open>unless(cmd)\<close> whose \<open>cmd\<close> builds, the
  executor runs \<open>cmd\<close> first. If it exits zero, the executor returns success and that
  run is the only \<open>System\<close> call: the main command is never invoked. If it fails with
  an \<open>ExitError\<close> (non-zero exit), the executor goes on to the main command, which (when
  it builds) is the next thing run. If it fails otherwise, the executor returns an
  \<open>Error\<close> that carries the captured output and wraps the failure. In the scenario
  \<open>unless = /bin/true\<close>, \<open>main = /bin/false\<close>, the only call is the run of
  \<open>/bin/true\<close>, and the driver marks the resource done and returns success.
\<close>
theorem applyExec_unless:
  assumes "Condition e = Cond_unless (Inr cond)"
    and "buildCommand (LocalRoot sys) cond = Inr cmd"
    and "Run sys cmd (world s) = ((out, r), w)"
  shows "(case r of
            None \<Rightarrow> applyExec sys e s = (None, s\<lparr>world := w, calls := calls s @ [Call_Run cmd]\<rparr>)
          | Some x \<Rightarrow>
              if isExitError x
              then applyExec sys e s
                     = runMain sys e (s\<lparr>world := w, calls := calls s @ [Call_Run cmd]\<rparr>)
                   \<and> (\<forall>main m. Command e = Inr main \<and> buildCommand (LocalRoot sys) main = Inr m \<longrightarrow>
                         calls (snd (applyExec sys e s)) = calls s @ [Call_Run cmd, Call_Run m])
              else applyExec sys e s =
                     (Some (Error None (Some out) (Errorf ''condition: %v'' [ArgErr x])),
                      s\<lparr>world := w, calls := calls s @ [Call_Run cmd]\<rparr>))
    \<and> New (Resources unlessCatalog) = Inr (unlessGraph NodePending)
    \<and> applyCatalog fakeSystem (\<lambda>s. None) (unlessGraph NodePending) (start []) =
        (None, unlessGraph NodeDone,
         \<lparr>world = [],
          calls = [Call_Run \<lparr>Path = ''/bin/true'', Args = [''/bin/true''], Env = [], Dir = ''/''\<rparr>],
          logs = [Infof ''applying: %s'' [ArgStr ''guarded (id=1)'']],
          ran = [(0, None)]\<rparr>)"
proof (intro conjI)
  show "case r of
            None \<Rightarrow> applyExec sys e s = (None, s\<lparr>world := w, calls := calls s @ [Call_Run cmd]\<rparr>)
          | Some x \<Rightarrow>
              if isExitError x
              then applyExec sys e s
                     = runMain sys e (s\<lparr>world := w, calls := calls s @ [Call_Run cmd]\<rparr>)
                   \<and> (\<forall>main m. Command e = Inr main \<and> buildCommand (LocalRoot sys) main = Inr m \<longrightarrow>
                         calls (snd (applyExec sys e s)) = calls s @ [Call_Run cmd, Call_Run m])
              else applyExec sys e s =
                     (Some (Error None (Some out) (Errorf ''condition: %v'' [ArgErr x])),
                      s\<lparr>world := w, calls := calls s @ [Call_Run cmd]\<rparr>)"
    using assms
    by (auto simp: applyExec_def sysRun_def errorWithOutput_Errorf runMain_calls
        split: option.splits)
  show "New (Resources unlessCatalog) = Inr (unlessGraph NodePending)"
    by code_simp
  show "applyCatalog fakeSystem (\<lambda>s. None) (unlessGraph NodePending) (start []) =
        (None, unlessGraph NodeDone,
         \<lparr>world = [],
          calls = [Call_Run \<lparr>Path = ''/bin/true'', Args = [''/bin/true''], Env = [], Dir = ''/''\<rparr>],
          logs = [Infof ''applying: %s'' [ArgStr ''guarded (id=1)'']],
          ran = [(0, None)]\<rparr>)"
    by code_simp
qed

definition unlessExec :: "string \<Rightarrow> string \<Rightarrow> Exec" where
  "unlessExec c m =
     \<lparr>Condition = Cond_unless (Inr (argvCommand [c])), Command = Inr (argvCommand [m])\<rparr>"

theorem applyExec_unless_witness:
  "applyExec fakeSystem (unlessExec ''/bin/true'' ''/bin/false'') (start []) =
     (None, \<lparr>world = [], calls = [Call_Run \<lparr>Path = ''/bin/true'', Args = [''/bin/true''],
                                           Env = [], Dir = ''/''\<rparr>], logs = [], ran = []\<rparr>)
   \<and> calls (snd (applyExec fakeSystem (unlessExec ''/bin/false'' ''/bin/true'') (start []))) =
       [Call_Run \<lparr>Path = ''/bin/false'', Args = [''/bin/false''], Env = [], Dir = ''/''\<rparr>,
        Call_Run \<lparr>Path = ''/bin/true'', Args = [''/bin/true''], Env = [], Dir = ''/''\<rparr>]
   \<and> applyExec fakeSystem (unlessExec ''/bin/nothing'' ''/bin/true'') (start []) =
       (Some (Error None (Some ''fork/exec: no such file or directory'')
                (Errorf ''condition: %v'' [ArgErr (OsError Other ''fork/exec'')])),
        \<lparr>world = [], calls = [Call_Run \<lparr>Path = ''/bin/nothing'', Args = [''/bin/nothing''],
                                       Env = [], Dir = ''/''\<rparr>], logs = [], ran = []\<rparr>)"
proof (intro conjI)
  have root: "LocalRoot fakeSystem = ''/''"
    by (simp add: fakeSystem_def)
  have b: "buildCommand (LocalRoot fakeSystem) (argvCommand [p])
             = Inr \<lparr>Path = p, Args = [p], Env = [], Dir = ''/''\<rparr>" if "IsAbs p" for p
    using that by (simp add: argvCommand_build root)
  have c: "Condition (unlessExec p q) = Cond_unless (Inr (argvCommand [p]))"
    "Command (unlessExec p q) = Inr (argvCommand [q])" for p q
    by (simp_all add: unlessExec_def)
  have abs: "IsAbs ''/bin/false''" "IsAbs ''/bin/true''" "IsAbs ''/bin/nothing''"
    by (simp_all add: IsAbs_def)
  have r1: "Run fakeSystem \<lparr>Path = ''/bin/true'', Args = [''/bin/true''], Env = [], Dir = ''/''\<rparr>
              (world (start [])) = (([], None), [])"
    by (simp add: fakeSystem_def start_def)
  from applyExec_unless [OF c(1) b [OF abs(2)] r1, THEN conjunct1]
  show "applyExec fakeSystem (unlessExec ''/bin/true'' ''/bin/false'') (start []) =
     (None, \<lparr>world = [], calls = [Call_Run \<lparr>Path = ''/bin/true'', Args = [''/bin/true''],
                                           Env = [], Dir = ''/''\<rparr>], logs = [], ran = []\<rparr>)"
    by (simp add: start_def)
  have r2: "Run fakeSystem \<lparr>Path = ''/bin/false'', Args = [''/bin/false''], Env = [], Dir = ''/''\<rparr>
              (world (start [])) = (([], Some (OsError Exit ''exit status 1'')), [])"
    by (simp add: fakeSystem_def start_def)
  have x: "isExitError (OsError Exit ''exit status 1'')"
    by (simp add: isExitError_def)
  from applyExec_unless [OF c(1) [of "''/bin/false''" "''/bin/true''"] b [OF abs(1)] r2,
      THEN conjunct1, simplified option.case x if_True, THEN conjunct2]
  have "\<forall>main m. Command (unlessExec ''/bin/false'' ''/bin/true'') = Inr main
          \<and> buildCommand (LocalRoot fakeSystem) main = Inr m \<longrightarrow>
          calls (snd (applyExec fakeSystem (unlessExec ''/bin/false'' ''/bin/true'') (start []))) =
          [Call_Run \<lparr>Path = ''/bin/false'', Args = [''/bin/false''], Env = [], Dir = ''/''\<rparr>,
           Call_Run m]"
    by (simp add: start_def)
  with c(2) b [OF abs(2)]
  show "calls (snd (applyExec fakeSystem (unlessExec ''/bin/false'' ''/bin/true'') (start []))) =
       [Call_Run \<lparr>Path = ''/bin/false'', Args = [''/bin/false''], Env = [], Dir = ''/''\<rparr>,
        Call_Run \<lparr>Path = ''/bin/true'', Args = [''/bin/true''], Env = [], Dir = ''/''\<rparr>]"
    by (simp add: start_def)
  have r3: "Run fakeSystem \<lparr>Path = ''/bin/nothing'', Args = [''/bin/nothing''], Env = [], Dir = ''/''\<rparr>
              (world (start [])) = ((''fork/exec: no such file or directory'',
                      Some (OsError Other ''fork/exec'')), [])"
    by (simp add: fakeSystem_def start_def)
  from applyExec_unless [OF c(1) b [OF abs(3)] r3, THEN conjunct1]
  show "applyExec fakeSystem (unlessExec ''/bin/nothing'' ''/bin/true'') (start []) =
       (Some (Error None (Some ''fork/exec: no such file or directory'')
                (Errorf ''condition: %v'' [ArgErr (OsError Other ''fork/exec'')])),
        \<lparr>world = [], calls = [Call_Run \<lparr>Path = ''/bin/nothing'', Args = [''/bin/nothing''],
                                       Env = [], Dir = ''/''\<rparr>], logs = [], ran = []\<rparr>)"
    by (simp add: isExitError_def start_def)
qed

section \<open>The head of the loop\<close>

text \<open>
  C9: when the graph is done at the head of the loop, the loop returns its normal result,
  success or the not-clean summary, with the graph and the state as they were, whatever
  the context says; so \<open>Apply\<close> of an empty catalog succeeds even when the context is
  cancelled. And when the graph is not done and \<open>Ready\<close> is empty, the loop returns the
  internal error, also when the context is cancelled: the emptiness of \<open>Ready\<close> is
  checked before the context.
\<close>
theorem applyLoop_done_ignores_cancellation:
  "(Done g \<longrightarrow>
      applyLoop sys ctx ok g s =
        (if ok then None else Some (ErrorsNew ''not all resources applied cleanly''), g, s))
   \<and> (Done g \<longrightarrow> applyCatalog sys ctx g s = (None, g, s))
   \<and> Apply sys ctx \<lparr>Resources = []\<rparr> s = (None, s)
   \<and> (\<not> Done g \<and> Ready g = [] \<longrightarrow>
        applyLoop sys ctx ok g s = (Some (ErrorsNew ''graph not done, but has nothing to do''), g, s))"
proof -
  have "New [] = Inr []"
    by (simp add: New_def)
  moreover have "Done []"
    by (simp add: Done_def)
  ultimately show ?thesis
    by (simp add: applyLoop.simps [of sys ctx _ g s] applyLoop.simps [of sys ctx _ "[]" s]
        applyCatalog_def Apply_def)
qed

definition settledGraph :: "node_status \<Rightarrow> Graph" where
  "settledGraph st =
     [\<lparr>resource = \<lparr>ID = 1, Comment = [], Dependencies = [], Which = Resource_noop\<rparr>,
       deps = [], status = st\<rparr>]"

definition stuckGraph :: Graph where
  "stuckGraph =
     [\<lparr>resource = \<lparr>ID = 1, Comment = [], Dependencies = [], Which = Resource_noop\<rparr>,
       deps = [], status = NodeFailed\<rparr>,
      \<lparr>resource = \<lparr>ID = 2, Comment = [], Dependencies = [1], Which = Resource_noop\<rparr>,
       deps = [0], status = NodePending\<rparr>]"

theorem applyLoop_done_ignores_cancellation_witness:
  "applyLoop fakeSystem (\<lambda>s. Some Canceled) False (settledGraph NodeFailed) (start []) =
     (Some (ErrorsNew ''not all resources applied cleanly''), settledGraph NodeFailed, start [])
   \<and> applyLoop fakeSystem (\<lambda>s. Some Canceled) True (settledGraph NodeDone) (start []) =
     (None, settledGraph NodeDone, start [])
   \<and> applyCatalog fakeSystem (\<lambda>s. Some Canceled) (settledGraph NodeDone) (start []) =
     (None, settledGraph NodeDone, start [])
   \<and> Apply fakeSystem (\<lambda>s. Some Canceled) \<lparr>Resources = []\<rparr> (start []) = (None, start [])
   \<and> applyLoop fakeSystem (\<lambda>s. Some Canceled) False stuckGraph (start []) =
     (Some (ErrorsNew ''graph not done, but has nothing to do''), stuckGraph, start [])"
proof -
  have d: "Done (settledGraph NodeFailed)" "Done (settledGraph NodeDone)"
    by (simp_all add: Done_def settledGraph_def)
  have n: "\<not> Done stuckGraph \<and> Ready stuckGraph = []"
    by (simp add: Done_def Ready_def stuckGraph_def)
  from d n
    applyLoop_done_ignores_cancellation
      [of "settledGraph NodeFailed" fakeSystem "\<lambda>s. Some Canceled" False "start []"]
    applyLoop_done_ignores_cancellation
      [of "settledGraph NodeDone" fakeSystem "\<lambda>s. Some Canceled" True "start []"]
    applyLoop_done_ignores_cancellation
      [of stuckGraph fakeSystem "\<lambda>s. Some Canceled" False "start []"]
  show ?thesis by simp
qed

section \<open>Properties of the graph\<close>

lemma length_Mark: "length (Mark i g) = length g"
  by (simp add: Mark_def)

lemma length_MarkFailure: "length (fst (MarkFailure i g)) = length g"
  by (simp add: MarkFailure_def Let_def)

lemma deps_Mark: "deps (Mark i g ! j) = deps (g ! j)"
proof (cases "i = j \<and> i < length g")
  case True
  then show ?thesis by (simp add: Mark_def)
next
  case False
  then show ?thesis by (cases "i = j") (auto simp: Mark_def list_update_beyond)
qed

lemma status_Mark:
  "j < length g \<Longrightarrow> status (Mark i g ! j) = (if j = i then NodeDone else status (g ! j))"
  by (simp add: Mark_def nth_list_update)

lemma deps_MarkFailure: "j < length g \<Longrightarrow> deps (fst (MarkFailure i g) ! j) = deps (g ! j)"
  by (simp add: MarkFailure_def Let_def)

lemma status_MarkFailure:
  "j < length g \<Longrightarrow>
     status (fst (MarkFailure i g) ! j) =
       (if j = i then NodeFailed
        else if j \<in> set (Descendants g i) then NodeSkipped else status (g ! j))"
  by (simp add: MarkFailure_def Let_def)

text \<open>One step of the traversal, on sets.\<close>
definition grow :: "Graph \<Rightarrow> nat set \<Rightarrow> nat set" where
  "grow g T = T \<union> {j. j < length g \<and> (\<exists>d \<in> set (deps (g ! j)). d \<in> T)}"

lemma set_reachStep: "set (reachStep g S) = grow g (set S)"
  by (auto simp: reachStep_def grow_def list_ex_iff)

lemma set_reach: "set (reach g k S) = (grow g ^^ k) (set S)"
  by (induction k arbitrary: S) (simp_all add: set_reachStep funpow_swap1)

lemma grow_bounded: "T \<subseteq> {..<length g} \<Longrightarrow> (grow g ^^ k) T \<subseteq> {..<length g}"
  by (induction k) (auto simp: grow_def)

lemma grow_fixpoint:
  assumes T: "T \<subseteq> {..<length g}" and ne: "T \<noteq> {}"
  shows "grow g ((grow g ^^ length g) T) = (grow g ^^ length g) T"
proof -
  have step: "grow g ((grow g ^^ k) T) = (grow g ^^ k) T \<or> card T + k \<le> card ((grow g ^^ k) T)"
    for k
  proof (induction k)
    case 0
    show ?case by simp
  next
    case (Suc k)
    let ?A = "(grow g ^^ k) T"
    show ?case
    proof (cases "grow g ?A = ?A")
      case True
      then show ?thesis by simp
    next
      case False
      with Suc have c: "card T + k \<le> card ?A" by blast
      have "?A \<subseteq> grow g ?A" by (simp add: grow_def)
      with False have "?A \<subset> grow g ?A" by blast
      moreover have "finite (grow g ?A)"
        using grow_bounded [OF T, of "Suc k"] by (simp add: finite_subset)
      ultimately have "card ?A < card (grow g ?A)"
        by (rule psubset_card_mono [rotated])
      with c show ?thesis by simp
    qed
  qed
  have "finite T"
    using T by (rule finite_subset) simp
  with ne have "0 < card T"
    by (simp add: card_gt_0_iff)
  moreover have "card ((grow g ^^ length g) T) \<le> length g"
    using card_mono [OF _ grow_bounded [OF T, of "length g"]] by simp
  ultimately show ?thesis
    using step [of "length g"] by linarith
qed

lemma Descendants_set:
  "set (Descendants g i) = (grow g ^^ length g) {i} - {i}"
  by (simp add: Descendants_def set_reach)

lemma grow_contains: "T \<subseteq> (grow g ^^ k) T"
  by (induction k) (auto simp: grow_def)

text \<open>A node that depends on a failed node, or on one of its descendants, is a descendant.\<close>
lemma Descendants_closed:
  assumes i: "i < length g" and j: "j < length g" and d: "d \<in> set (deps (g ! j))"
    and r: "d = i \<or> d \<in> set (Descendants g i)"
  shows "j = i \<or> j \<in> set (Descendants g i)"
proof -
  let ?R = "(grow g ^^ length g) {i}"
  have "i \<in> ?R"
    using grow_contains [where T = "{i}" and g = g and k = "length g"] by simp
  with r have "d \<in> ?R"
    by (auto simp: Descendants_set)
  with j d have "j \<in> grow g ?R"
    by (auto simp: grow_def)
  moreover from i have "grow g ?R = ?R"
    by (intro grow_fixpoint) simp_all
  ultimately show ?thesis
    by (simp add: Descendants_set)
qed

text \<open>What the drain shows: every non-empty set of nodes has a node with no dependency in it.\<close>
lemma drain_minimal:
  "set (drain es k acc) \<inter> P \<noteq> {} \<Longrightarrow> set acc \<inter> P = {} \<Longrightarrow>
     \<exists>i\<in>P. i < length es \<and> (\<forall>d\<in>set (es ! i). d \<notin> P)"
proof (induction k arbitrary: acc)
  case 0
  then show ?case by simp
next
  case (Suc k)
  let ?new = "filter (\<lambda>i. i \<notin> set acc \<and> list_all (\<lambda>d. d \<in> set acc) (es ! i)) [0..<length es]"
  show ?case
  proof (cases "set (acc @ ?new) \<inter> P = {}")
    case True
    with Suc.IH [of "acc @ ?new"] Suc.prems(1) show ?thesis by simp
  next
    case False
    with Suc.prems(2) obtain i where "i \<in> P" "i \<in> set ?new" by auto
    with Suc.prems(2) show ?thesis
      by (auto simp: list_all_iff)
  qed
qed

lemma indexOf_less: "indexOf x xs = Some j \<Longrightarrow> j < length xs"
  by (induction xs arbitrary: j) (auto split: if_splits)

lemma resolve_less: "d \<in> set (resolve ids ds) \<Longrightarrow> d < length ids"
  by (auto simp: resolve_def dest: indexOf_less [OF sym] split: option.splits)

text \<open>
  The invariant of the graph: dependencies are handles of the graph, there is no cycle,
  and a pending node depends on pending and done nodes only.
\<close>
definition wellFormed :: "Graph \<Rightarrow> bool" where
  "wellFormed g \<longleftrightarrow>
     (\<forall>P. P \<noteq> {} \<and> P \<subseteq> {..<length g} \<longrightarrow> (\<exists>i\<in>P. \<forall>d\<in>set (deps (g ! i)). d \<notin> P))
     \<and> (\<forall>i<length g. \<forall>d\<in>set (deps (g ! i)). d < length g)
     \<and> (\<forall>i<length g. status (g ! i) = NodePending \<longrightarrow>
           (\<forall>d\<in>set (deps (g ! i)). status (g ! d) = NodePending \<or> status (g ! d) = NodeDone))"

lemma New_Inr:
  assumes "New res = Inr g"
  shows "length g = length res"
    and "\<forall>i<length res. resource (g ! i) = res ! i \<and> status (g ! i) = NodePending
           \<and> deps (g ! i) = resolve (map ID res) (Dependencies (res ! i))"
    and "\<forall>i<length res.
           i \<in> set (drain (map (\<lambda>r. resolve (map ID res) (Dependencies r)) res) (length res) [])"
proof -
  let ?ids = "map ID res"
  let ?es = "map (\<lambda>r. resolve (map ID res) (Dependencies r)) res"
  let ?left = "filter (\<lambda>i. i \<notin> set (drain ?es (length ?es) [])) [0..<length ?es]"
  let ?G = "map (\<lambda>(r, ds). \<lparr>resource = r, deps = ds, status = NodePending\<rparr>) (zip res ?es)"
  let ?missing = "List.find (\<lambda>(a, b). b \<notin> set ?ids)
                    (concat (map (\<lambda>r. map (\<lambda>d. (ID r, d)) (Dependencies r)) res))"
  have both: "?left = [] \<and> g = ?G"
  proof (cases "0 \<in> set ?ids")
    case True
    with assms show ?thesis by (simp add: New_def)
  next
    case nz: False
    show ?thesis
    proof (cases "firstDup ?ids")
      case (Some d)
      with nz assms show ?thesis by (simp add: New_def)
    next
      case nd: None
      show ?thesis
      proof (cases ?missing)
        case (Some ab)
        with nz nd assms show ?thesis by (simp add: New_def split: prod.splits)
      next
        case None
        with nz nd assms show ?thesis
          by (simp add: New_def Let_def split: if_splits)
      qed
    qed
  qed
  then have g: "g = ?G" and left: "?left = []"
    by simp_all
  show "length g = length res"
    by (simp add: g)
  show "\<forall>i<length res. resource (g ! i) = res ! i \<and> status (g ! i) = NodePending
           \<and> deps (g ! i) = resolve (map ID res) (Dependencies (res ! i))"
    by (simp add: g)
  from left show "\<forall>i<length res. i \<in> set (drain ?es (length res) [])"
    by (auto simp: filter_empty_conv)
qed

lemma New_wellFormed:
  assumes "New res = Inr g"
  shows "wellFormed g"
proof -
  let ?es = "map (\<lambda>r. resolve (map ID res) (Dependencies r)) res"
  note n = New_Inr [OF assms]
  have deps: "deps (g ! i) = ?es ! i" if "i < length g" for i
    using that n(1) n(2) by simp
  have "\<exists>i\<in>P. \<forall>d\<in>set (deps (g ! i)). d \<notin> P" if P: "P \<noteq> {}" "P \<subseteq> {..<length g}" for P
  proof -
    from P obtain p where "p \<in> P" "p < length res"
      using n(1) by auto
    with n(3) have "set (drain ?es (length res) []) \<inter> P \<noteq> {}"
      by auto
    from drain_minimal [OF this] obtain i where "i \<in> P" "i < length ?es" "\<forall>d\<in>set (?es ! i). d \<notin> P"
      by auto
    with deps [of i] n(1) have "i \<in> P" "\<forall>d\<in>set (deps (g ! i)). d \<notin> P"
      by simp_all
    then show ?thesis ..
  qed
  moreover have "\<forall>i<length g. \<forall>d\<in>set (deps (g ! i)). d < length g"
    using n(1) n(2) resolve_less [of _ "map ID res"] by auto
  moreover have "\<forall>i<length g. status (g ! i) = NodePending \<longrightarrow>
           (\<forall>d\<in>set (deps (g ! i)). status (g ! d) = NodePending \<or> status (g ! d) = NodeDone)"
    using n(1) n(2) resolve_less [of _ "map ID res"] by auto
  ultimately show ?thesis
    unfolding wellFormed_def by blast
qed

lemma wellFormed_minimal:
  "wellFormed g \<Longrightarrow> P \<noteq> {} \<Longrightarrow> P \<subseteq> {..<length g} \<Longrightarrow>
     \<exists>i\<in>P. \<forall>d\<in>set (deps (g ! i)). d \<notin> P"
  by (simp add: wellFormed_def)

lemma wellFormed_deps:
  "wellFormed g \<Longrightarrow> i < length g \<Longrightarrow> d \<in> set (deps (g ! i)) \<Longrightarrow> d < length g"
  by (simp add: wellFormed_def)

lemma wellFormed_pending:
  "wellFormed g \<Longrightarrow> i < length g \<Longrightarrow> status (g ! i) = NodePending \<Longrightarrow>
     d \<in> set (deps (g ! i)) \<Longrightarrow> status (g ! d) = NodePending \<or> status (g ! d) = NodeDone"
  by (simp add: wellFormed_def)

lemma Done_iff: "Done g \<longleftrightarrow> pending g = {}"
  by (auto simp: Done_def pending_def list_all_length)

lemma set_Ready:
  "set (Ready g) = {i. i < length g \<and> status (g ! i) = NodePending
                      \<and> (\<forall>d\<in>set (deps (g ! i)). status (g ! d) = NodeDone)}"
  by (auto simp: Ready_def list_all_iff)

lemma Ready_nonempty:
  assumes wf: "wellFormed g" and nd: "\<not> Done g"
  shows "Ready g \<noteq> []"
proof -
  from nd have "pending g \<noteq> {}" by (simp add: Done_iff)
  moreover have "pending g \<subseteq> {..<length g}" by (auto simp: pending_def)
  ultimately obtain i where i: "i \<in> pending g" "\<forall>d\<in>set (deps (g ! i)). d \<notin> pending g"
    using wellFormed_minimal [OF wf] by meson
  from i(1) have il: "i < length g" and ip: "status (g ! i) = NodePending"
    by (simp_all add: pending_def)
  have "status (g ! d) = NodeDone" if d: "d \<in> set (deps (g ! i))" for d
  proof -
    from wellFormed_deps [OF wf il d] have "d < length g" .
    moreover from i(2) d have "d \<notin> pending g" by simp
    ultimately have "status (g ! d) \<noteq> NodePending" by (simp add: pending_def)
    with wellFormed_pending [OF wf il ip d] show ?thesis by simp
  qed
  with il ip have "i \<in> set (Ready g)"
    by (simp add: set_Ready)
  then show ?thesis by auto
qed

lemma wellFormed_Mark:
  assumes wf: "wellFormed g"
  shows "wellFormed (Mark cur g)"
  unfolding wellFormed_def
proof (intro conjI allI impI)
  fix P :: "nat set"
  assume "P \<noteq> {} \<and> P \<subseteq> {..<length (Mark cur g)}"
  then have "P \<noteq> {}" "P \<subseteq> {..<length g}"
    by (simp_all add: length_Mark)
  from wellFormed_minimal [OF wf this]
  show "\<exists>i\<in>P. \<forall>d\<in>set (deps (Mark cur g ! i)). d \<notin> P"
    by (simp add: deps_Mark)
next
  fix i
  assume "i < length (Mark cur g)"
  then have "i < length g" by (simp add: length_Mark)
  from wellFormed_deps [OF wf this]
  show "\<forall>d\<in>set (deps (Mark cur g ! i)). d < length (Mark cur g)"
    by (simp add: deps_Mark length_Mark)
next
  fix i
  assume i: "i < length (Mark cur g)" and p: "status (Mark cur g ! i) = NodePending"
  then have il: "i < length g" and ip: "status (g ! i) = NodePending"
    by (auto simp: length_Mark status_Mark split: if_splits)
  show "\<forall>d\<in>set (deps (Mark cur g ! i)).
      status (Mark cur g ! d) = NodePending \<or> status (Mark cur g ! d) = NodeDone"
  proof
    fix d
    assume "d \<in> set (deps (Mark cur g ! i))"
    then have d: "d \<in> set (deps (g ! i))" by (simp add: deps_Mark)
    from wellFormed_deps [OF wf il d] wellFormed_pending [OF wf il ip d]
    show "status (Mark cur g ! d) = NodePending \<or> status (Mark cur g ! d) = NodeDone"
      by (auto simp: status_Mark)
  qed
qed

lemma wellFormed_MarkFailure:
  assumes wf: "wellFormed g" and cur: "cur < length g"
  shows "wellFormed (fst (MarkFailure cur g))"
  unfolding wellFormed_def
proof (intro conjI allI impI)
  fix P :: "nat set"
  assume "P \<noteq> {} \<and> P \<subseteq> {..<length (fst (MarkFailure cur g))}"
  then have P: "P \<noteq> {}" "P \<subseteq> {..<length g}"
    by (simp_all add: length_MarkFailure)
  from wellFormed_minimal [OF wf this]
  obtain i where i: "i \<in> P" "\<forall>d\<in>set (deps (g ! i)). d \<notin> P"
    by meson
  with P(2) have "i < length g"
    by auto
  with i have "i \<in> P" "\<forall>d\<in>set (deps (fst (MarkFailure cur g) ! i)). d \<notin> P"
    by (simp_all add: deps_MarkFailure)
  then show "\<exists>i\<in>P. \<forall>d\<in>set (deps (fst (MarkFailure cur g) ! i)). d \<notin> P" ..
next
  fix i
  assume "i < length (fst (MarkFailure cur g))"
  then have "i < length g" by (simp add: length_MarkFailure)
  from wellFormed_deps [OF wf this] this
  show "\<forall>d\<in>set (deps (fst (MarkFailure cur g) ! i)). d < length (fst (MarkFailure cur g))"
    by (simp add: deps_MarkFailure length_MarkFailure)
next
  fix i
  assume i: "i < length (fst (MarkFailure cur g))"
    and p: "status (fst (MarkFailure cur g) ! i) = NodePending"
  then have il: "i < length g" and ic: "i \<noteq> cur" and iD: "i \<notin> set (Descendants g cur)"
    and ip: "status (g ! i) = NodePending"
    by (auto simp: length_MarkFailure status_MarkFailure split: if_splits)
  show "\<forall>d\<in>set (deps (fst (MarkFailure cur g) ! i)).
      status (fst (MarkFailure cur g) ! d) = NodePending
      \<or> status (fst (MarkFailure cur g) ! d) = NodeDone"
  proof
    fix d
    assume "d \<in> set (deps (fst (MarkFailure cur g) ! i))"
    with il have d: "d \<in> set (deps (g ! i))"
      by (simp add: deps_MarkFailure)
    from wellFormed_deps [OF wf il d] have dl: "d < length g" .
    from wellFormed_pending [OF wf il ip d]
    have ds: "status (g ! d) = NodePending \<or> status (g ! d) = NodeDone" .
    from Descendants_closed [OF cur il d] ic iD
    have "d \<noteq> cur" "d \<notin> set (Descendants g cur)" by auto
    with dl ds show "status (fst (MarkFailure cur g) ! d) = NodePending
      \<or> status (fst (MarkFailure cur g) ! d) = NodeDone"
      by (simp add: status_MarkFailure)
  qed
qed

text \<open>
  The graphs the loop of \<open>applyCatalog\<close> passes through for the resources \<open>res\<close>: the
  graph \<open>New\<close> builds, and the graph after each iteration, which takes the first ready
  node and marks it done or failed.
\<close>
inductive reachable :: "Resource list \<Rightarrow> Graph \<Rightarrow> bool" for res :: "Resource list" where
  built: "New res = Inr g \<Longrightarrow> reachable res g"
| marked: "reachable res g \<Longrightarrow> Ready g = cur # rest \<Longrightarrow> reachable res (Mark cur g)"
| failed: "reachable res g \<Longrightarrow> Ready g = cur # rest \<Longrightarrow> reachable res (fst (MarkFailure cur g))"

lemma reachable_wellFormed: "reachable res g \<Longrightarrow> wellFormed g"
proof (induction rule: reachable.induct)
  case (built g)
  then show ?case by (rule New_wellFormed)
next
  case (marked g cur rest)
  then show ?case by (simp add: wellFormed_Mark)
next
  case (failed g cur rest)
  then have "cur \<in> set (Ready g)" by simp
  then have "cur < length g" by (simp add: set_Ready)
  with failed show ?case by (simp add: wellFormed_MarkFailure)
qed

section \<open>Properties of the loop\<close>

lemma errorWithResource_None: "errorWithResource r eo = None \<longleftrightarrow> eo = None"
  by (cases eo) (auto simp: errorWithResource_def toError_def split: err.splits)

lemma ran_sys:
  "sysLstat sys p s = (r1, s') \<Longrightarrow> ran s' = ran s"
  "sysMkdir sys p m s = (r2, s') \<Longrightarrow> ran s' = ran s"
  "sysSymlink sys t p s = (r2, s') \<Longrightarrow> ran s' = ran s"
  "sysReadlink sys p s = (r3, s') \<Longrightarrow> ran s' = ran s"
  "sysRemove sys p s = (r2, s') \<Longrightarrow> ran s' = ran s"
  "sysWriteFile sys p c m s = (r2, s') \<Longrightarrow> ran s' = ran s"
  "sysRun sys cmd s = (r4, s') \<Longrightarrow> ran s' = ran s"
  by (auto simp: sysLstat_def sysMkdir_def sysSymlink_def sysReadlink_def sysRemove_def
      sysWriteFile_def sysRun_def split: prod.splits)

lemma ran_runMain: "runMain sys e s = (r, s') \<Longrightarrow> ran s' = ran s"
  unfolding runMain_def
  by (auto split: sum.splits prod.splits option.splits dest!: ran_sys)

lemma ran_applyExec: "applyExec sys e s = (r, s') \<Longrightarrow> ran s' = ran s"
  unfolding applyExec_def
  by (auto split: Exec_condition.splits sum.splits prod.splits option.splits if_splits
      dest!: ran_sys ran_runMain)

lemma ran_applyFile: "applyFile sys f s = (r, s') \<Longrightarrow> ran s' = ran s"
  unfolding applyFile_def
  by (auto split: File_Which.splits sum.splits prod.splits option.splits if_splits
      dest!: ran_sys)

lemma ran_applyResource: "ran (snd (applyResource sys r s)) = ran s"
proof -
  obtain x s' where a: "applyResource sys r s = (x, s')"
    by (cases "applyResource sys r s")
  then have "ran s' = ran s"
    unfolding applyResource_def
    by (auto split: Resource_Which.splits sum.splits dest!: ran_applyFile ran_applyExec)
  with a show ?thesis by simp
qed

text \<open>One iteration of the loop, for the first ready node \<open>cur\<close>.\<close>
definition iteration ::
  "'w System \<Rightarrow> bool \<Rightarrow> Graph \<Rightarrow> nat \<Rightarrow> 'w state \<Rightarrow> bool \<times> Graph \<times> 'w state" where
  "iteration sys ok g cur s =
     (let res = Resource g cur;
          s1 = logInfof ''applying: %s'' [ArgStr (formatResource res)] s;
          rs = applyResource sys res s1;
          s2 = (snd rs)\<lparr>ran := ran (snd rs) @ [(cur, fst rs)]\<rparr>
      in case errorWithResource res (fst rs) of
           None \<Rightarrow> (ok, Mark cur g, s2)
         | Some e \<Rightarrow>
             (let s3 = logError (toError e) s2;
                  gs = MarkFailure cur g;
                  skipped = snd gs;
                  s4 = (if length skipped > 0
                        then logInfof ''skipping due to failure of %s: %s''
                               [ArgStr (formatResource res),
                                ArgStr (Join (map (\<lambda>j. formatResource (Resource (fst gs) j))
                                                skipped) '', '')] s3
                        else s3)
              in (False, fst gs, s4)))"

lemma applyLoop_iteration:
  "\<not> Done g \<Longrightarrow> Ready g = cur # rest \<Longrightarrow> ctx s = None \<Longrightarrow>
     applyLoop sys ctx ok g s =
       (case iteration sys ok g cur s of (ok', g', s') \<Rightarrow> applyLoop sys ctx ok' g' s')"
  by (subst applyLoop.simps) (simp add: iteration_def Let_def split: option.splits)

lemma iteration_cases:
  assumes "iteration sys ok g cur s = (ok', g', s')"
  obtains "ok' = ok" "g' = Mark cur g" "ran s' = ran s @ [(cur, None)]"
  | e where "ok' = False" "g' = fst (MarkFailure cur g)" "ran s' = ran s @ [(cur, Some e)]"
proof (cases "fst (applyResource sys (Resource g cur)
                     (logInfof ''applying: %s'' [ArgStr (formatResource (Resource g cur))] s))")
  case None
  with assms have "ok' = ok" "g' = Mark cur g" "ran s' = ran s @ [(cur, None)]"
    by (auto simp: iteration_def Let_def errorWithResource_def ran_applyResource logInfof_def)
  then show ?thesis by (rule that(1))
next
  case (Some e)
  then obtain e' where "errorWithResource (Resource g cur)
      (fst (applyResource sys (Resource g cur)
             (logInfof ''applying: %s'' [ArgStr (formatResource (Resource g cur))] s))) = Some e'"
    using errorWithResource_None [of "Resource g cur" "Some e"] by auto
  with assms Some have "ok' = False" "g' = fst (MarkFailure cur g)"
    "ran s' = ran s @ [(cur, Some e)]"
    by (auto simp: iteration_def Let_def ran_applyResource logInfof_def logError_def)
  then show ?thesis by (rule that(2))
qed

text \<open>
  The invariant of the loop, between the graph, the flag \<open>ok\<close> and the resources run so
  far: no resource was run twice; a resource that was run is no longer pending; while
  \<open>ok\<close> holds, every node that is not pending was run with success; once it fails, some
  resource was run with an error; and a done or failed node was run.
\<close>
definition loopInv :: "Graph \<Rightarrow> bool \<Rightarrow> (nat \<times> err option) list \<Rightarrow> bool" where
  "loopInv g ok rn \<longleftrightarrow>
     distinct (map fst rn)
     \<and> (\<forall>i\<in>fst ` set rn. i < length g \<and> status (g ! i) \<noteq> NodePending)
     \<and> (ok \<longrightarrow> (\<forall>i<length g. status (g ! i) = NodePending \<or> (i, None) \<in> set rn))
     \<and> (\<not> ok \<longrightarrow> (\<exists>i e. (i, Some e) \<in> set rn))
     \<and> (\<forall>i<length g. status (g ! i) = NodeDone \<or> status (g ! i) = NodeFailed \<longrightarrow>
           i \<in> fst ` set rn)"

lemma loopInv_start: "New res = Inr g \<Longrightarrow> loopInv g True []"
  using New_Inr(1,2) [of res g] by (simp add: loopInv_def)

lemma loopInv_Mark:
  assumes inv: "loopInv g ok rn" and cur: "cur \<in> pending g"
  shows "loopInv (Mark cur g) ok (rn @ [(cur, None)])"
proof -
  from cur have cl: "cur < length g" and cp: "status (g ! cur) = NodePending"
    by (simp_all add: pending_def)
  from inv cp have fresh: "cur \<notin> fst ` set rn"
    unfolding loopInv_def by blast
  have st: "status (Mark cur g ! i) = (if i = cur then NodeDone else status (g ! i))"
    if "i < length g" for i
    using that by (rule status_Mark)
  show ?thesis
    unfolding loopInv_def length_Mark
  proof (intro conjI)
    from inv fresh show "distinct (map fst (rn @ [(cur, None)]))"
      by (simp add: loopInv_def)
    from inv cl show "\<forall>i\<in>fst ` set (rn @ [(cur, None)]).
        i < length g \<and> status (Mark cur g ! i) \<noteq> NodePending"
      by (auto simp: loopInv_def st)
    from inv show "ok \<longrightarrow> (\<forall>i<length g. status (Mark cur g ! i) = NodePending
        \<or> (i, None) \<in> set (rn @ [(cur, None)]))"
      by (auto simp: loopInv_def st)
    from inv show "\<not> ok \<longrightarrow> (\<exists>i e. (i, Some e) \<in> set (rn @ [(cur, None)]))"
      by (auto simp: loopInv_def)
    from inv show "\<forall>i<length g. status (Mark cur g ! i) = NodeDone
        \<or> status (Mark cur g ! i) = NodeFailed \<longrightarrow> i \<in> fst ` set (rn @ [(cur, None)])"
      by (auto simp: loopInv_def st)
  qed
qed

lemma loopInv_MarkFailure:
  assumes inv: "loopInv g ok rn" and cur: "cur \<in> pending g"
  shows "loopInv (fst (MarkFailure cur g)) False (rn @ [(cur, Some e)])"
proof -
  from cur have cl: "cur < length g" and cp: "status (g ! cur) = NodePending"
    by (simp_all add: pending_def)
  from inv cp have fresh: "cur \<notin> fst ` set rn"
    unfolding loopInv_def by blast
  note st = status_MarkFailure [of _ g cur]
  show ?thesis
    unfolding loopInv_def length_MarkFailure
  proof (intro conjI)
    from inv fresh show "distinct (map fst (rn @ [(cur, Some e)]))"
      by (simp add: loopInv_def)
    from inv cl show "\<forall>i\<in>fst ` set (rn @ [(cur, Some e)]).
        i < length g \<and> status (fst (MarkFailure cur g) ! i) \<noteq> NodePending"
      by (auto simp: loopInv_def st)
    show "False \<longrightarrow> (\<forall>i<length g. status (fst (MarkFailure cur g) ! i) = NodePending
        \<or> (i, None) \<in> set (rn @ [(cur, Some e)]))"
      by simp
    show "\<not> False \<longrightarrow> (\<exists>i e'. (i, Some e') \<in> set (rn @ [(cur, Some e)]))"
      by auto
    from inv show "\<forall>i<length g. status (fst (MarkFailure cur g) ! i) = NodeDone
        \<or> status (fst (MarkFailure cur g) ! i) = NodeFailed \<longrightarrow>
        i \<in> fst ` set (rn @ [(cur, Some e)])"
      by (auto simp: loopInv_def st split: if_splits)
  qed
qed

lemma Ready_Cons_pending: "Ready g = cur # rest \<Longrightarrow> cur \<in> pending g"
  using Ready_subset_pending [of g] by auto

lemma iteration_preserves:
  assumes it: "iteration sys ok g cur s = (ok', g', s')" and r: "Ready g = cur # rest"
  shows "length g' = length g"
    and "card (pending g') < card (pending g)"
    and "loopInv g ok (ran s) \<Longrightarrow> loopInv g' ok' (ran s')"
    and "wellFormed g \<Longrightarrow> wellFormed g'"
proof -
  note cur = Ready_Cons_pending [OF r]
  then have cl: "cur < length g" by (simp add: pending_def)
  from it show "length g' = length g"
    by (rule iteration_cases) (simp_all add: length_Mark length_MarkFailure)
  from it show "card (pending g') < card (pending g)"
    by (rule iteration_cases)
      (simp_all add: psubset_card_mono [OF finite_pending pending_Mark [OF cur]]
        psubset_card_mono [OF finite_pending pending_MarkFailure [OF cur]])
  from it show "loopInv g ok (ran s) \<Longrightarrow> loopInv g' ok' (ran s')"
    by (rule iteration_cases) (simp_all add: loopInv_Mark [OF _ cur] loopInv_MarkFailure [OF _ cur])
  from it show "wellFormed g \<Longrightarrow> wellFormed g'"
    by (rule iteration_cases) (simp_all add: wellFormed_Mark wellFormed_MarkFailure [OF _ cl])
qed

text \<open>What the loop returns, and in which graph and state, from a state that satisfies the invariant.\<close>
definition loopPost ::
  "'w Context \<Rightarrow> Graph \<Rightarrow> err option \<times> Graph \<times> 'w state \<Rightarrow> bool" where
  "loopPost ctx g out =
     (case out of (r, g', s') \<Rightarrow>
        length g' = length g
        \<and> (r = None \<longleftrightarrow> (\<forall>i<length g. (i, None) \<in> set (ran s')))
        \<and> (wellFormed g \<and> (\<forall>t. ctx t = None) \<longrightarrow>
             Done g'
             \<and> (\<forall>i<length g'. status (g' ! i) = NodeSkipped \<or> i \<in> fst ` set (ran s'))
             \<and> r = (if \<exists>i e. (i, Some e) \<in> set (ran s')
                    then Some (ErrorsNew ''not all resources applied cleanly'') else None)))"

lemma not_both:
  assumes "loopInv g ok rn" and "(i, Some e) \<in> set rn" and "(i, None) \<in> set rn"
  shows False
proof -
  from assms(1) have "distinct (map fst rn)" by (simp add: loopInv_def)
  from eq_key_imp_eq_value [OF this assms(2) assms(3)] show False by simp
qed

lemma loopPost_done:
  assumes inv: "loopInv g ok (ran s)" and d: "Done g"
  shows "loopPost ctx g
           (if \<not> ok then Some (ErrorsNew ''not all resources applied cleanly'') else None, g, s)"
proof -
  from d have np: "status (g ! i) \<noteq> NodePending" if "i < length g" for i
    using that by (simp add: Done_def list_all_length)
  have ran_ok: "(i, None) \<in> set (ran s)" if "ok" "i < length g" for i
    using inv that np [of i] unfolding loopInv_def by blast
  have bad: "\<exists>i e. (i, Some e) \<in> set (ran s)" if "\<not> ok"
    using inv that unfolding loopInv_def by blast
  have in_g: "i < length g" if "(i, r) \<in> set (ran s)" for i r
  proof -
    from that have "i \<in> fst ` set (ran s)" by force
    with inv show ?thesis unfolding loopInv_def by blast
  qed
  have none: "\<not> (\<exists>i e. (i, Some e) \<in> set (ran s))" if "ok"
  proof
    assume "\<exists>i e. (i, Some e) \<in> set (ran s)"
    then obtain i e where ie: "(i, Some e) \<in> set (ran s)" by blast
    from ran_ok [OF that in_g [OF ie]] not_both [OF inv ie] show False by blast
  qed
  have all: "\<not> (\<forall>i<length g. (i, None) \<in> set (ran s))" if "\<not> ok"
  proof
    assume a: "\<forall>i<length g. (i, None) \<in> set (ran s)"
    from bad [OF that] obtain i e where ie: "(i, Some e) \<in> set (ran s)" by blast
    from a in_g [OF ie] not_both [OF inv ie] show False by blast
  qed
  have skipped: "status (g ! i) = NodeSkipped \<or> i \<in> fst ` set (ran s)" if "i < length g" for i
  proof (cases "status (g ! i)")
    case NodePending
    with np [OF that] show ?thesis by simp
  next
    case NodeDone
    with inv that show ?thesis unfolding loopInv_def by blast
  next
    case NodeFailed
    with inv that show ?thesis unfolding loopInv_def by blast
  next
    case NodeSkipped
    then show ?thesis by simp
  qed
  show ?thesis
  proof (cases ok)
    case True
    with d ran_ok none skipped show ?thesis
      by (simp add: loopPost_def)
  next
    case False
    with d all bad skipped show ?thesis
      by (simp add: loopPost_def)
  qed
qed

lemma loopPost_stopped:
  assumes inv: "loopInv g ok (ran s)" and nd: "\<not> Done g"
    and stop: "\<not> (wellFormed g \<and> (\<forall>t. ctx t = None))"
  shows "loopPost ctx g (Some e, g, s)"
proof -
  from nd obtain i where i: "i < length g" "status (g ! i) = NodePending"
    by (auto simp: Done_def list_all_length)
  have "(i, None) \<notin> set (ran s)"
  proof
    assume "(i, None) \<in> set (ran s)"
    then have "i \<in> fst ` set (ran s)" by force
    with inv i(2) show False unfolding loopInv_def by blast
  qed
  with i(1) stop show ?thesis
    by (auto simp: loopPost_def)
qed

lemma loopPost_step:
  assumes "length g1 = length g" and "wellFormed g \<Longrightarrow> wellFormed g1"
    and "loopPost ctx g1 out"
  shows "loopPost ctx g out"
  using assms by (auto simp: loopPost_def split: if_splits)

lemma applyLoop_post:
  "loopInv g ok (ran s) \<Longrightarrow> loopPost ctx g (applyLoop sys ctx ok g s)"
proof (induction "card (pending g)" arbitrary: g ok s rule: less_induct)
  case less
  note inv = less.prems
  show ?case
  proof (cases "Done g")
    case True
    with loopPost_done [OF inv True, of ctx] show ?thesis
      by (simp add: applyLoop.simps [of sys ctx ok g s])
  next
    case nd: False
    show ?thesis
    proof (cases "Ready g")
      case Nil
      with nd Ready_nonempty [of g] have "\<not> (wellFormed g \<and> (\<forall>t. ctx t = None))"
        by blast
      from loopPost_stopped [OF inv nd this] nd Nil show ?thesis
        by (simp add: applyLoop.simps [of sys ctx ok g s])
    next
      case (Cons cur rest)
      show ?thesis
      proof (cases "ctx s")
        case (Some c)
        then have "\<not> (wellFormed g \<and> (\<forall>t. ctx t = None))"
          by auto
        from loopPost_stopped [OF inv nd this] nd Cons Some show ?thesis
          by (simp add: applyLoop.simps [of sys ctx ok g s])
      next
        case None
        obtain ok' g' s' where it: "iteration sys ok g cur s = (ok', g', s')"
          by (cases "iteration sys ok g cur s")
        note p = iteration_preserves [OF it Cons]
        from less.hyps [OF p(2) p(3) [OF inv]]
        have "loopPost ctx g' (applyLoop sys ctx ok' g' s')" .
        from loopPost_step [OF p(1) p(4) this]
        show ?thesis
          by (simp add: applyLoop_iteration [where ctx = ctx and s = s, OF nd Cons None] it)
      qed
    qed
  qed
qed

section \<open>Cancellation\<close>

definition absentResource :: "64 word \<Rightarrow> string \<Rightarrow> 64 word list \<Rightarrow> Resource" where
  "absentResource i p ds =
     \<lparr>ID = i, Comment = [], Dependencies = ds,
      Which = Resource_file (Inr \<lparr>file_Path = Inr p, file_Which = File_absent\<rparr>)\<rparr>"

definition fiveCatalog :: Catalog where
  "fiveCatalog =
     \<lparr>Resources =
        [absentResource 1 ''/tmp/1'' [], absentResource 2 ''/tmp/2'' [1],
         absentResource 3 ''/tmp/3'' [2], absentResource 4 ''/tmp/4'' [],
         absentResource 5 ''/tmp/5'' [4, 3]]\<rparr>"

definition fiveGraph :: "node_status list \<Rightarrow> Graph" where
  "fiveGraph st =
     map (\<lambda>((r, ds), t). \<lparr>resource = r, deps = ds, status = t\<rparr>)
       (zip (zip (Resources fiveCatalog) [[], [0], [1], [], [3, 2]]) st)"

text \<open>A context that is cancelled once the first resource has been run.\<close>
definition cancelAfterFirst :: "'w Context" where
  "cancelAfterFirst s = (if ran s \<noteq> [] then Some Canceled else None)"

definition afterFirst :: "(string \<times> fake_node) list state" where
  "afterFirst =
     \<lparr>world = [], calls = [Call_Remove ''/tmp/1''],
      logs = [Infof ''applying: %s'' [ArgStr ''id=1'']], ran = [(0, None)]\<rparr>"

lemma fiveCatalog_New: "New (Resources fiveCatalog) = Inr (fiveGraph (replicate 5 NodePending))"
  by code_simp

lemma fiveCatalog_cancelled:
  "applyCatalog fakeSystem cancelAfterFirst (fiveGraph (replicate 5 NodePending)) (start []) =
     (Some (CtxError Canceled), fiveGraph (NodeDone # replicate 4 NodePending), afterFirst)"
  by code_simp

text \<open>
  C2: in every graph the loop reaches for a catalog, if the graph is not done and the
  context is cancelled at the head of an iteration, the loop returns the error of the
  context with the graph and the state as they are: no resource is started, nothing is
  logged, no \<open>System\<close> method is invoked. In a run of five resources whose context is
  cancelled once the first has been run, the first is logged and marked done, the loop
  returns \<open>Canceled\<close>, which \<open>Apply\<close> wraps, and the only \<open>System\<close> call is the one
  of the first resource.
\<close>
theorem applyLoop_cancelled:
  "(reachable res g \<and> \<not> Done g \<and> ctx s = Some c \<longrightarrow>
      applyLoop sys ctx ok g s = (Some (CtxError c), g, s))
   \<and> New (Resources fiveCatalog) = Inr (fiveGraph (replicate 5 NodePending))
   \<and> applyCatalog fakeSystem cancelAfterFirst (fiveGraph (replicate 5 NodePending)) (start []) =
       (Some (CtxError Canceled), fiveGraph (NodeDone # replicate 4 NodePending), afterFirst)
   \<and> Apply fakeSystem cancelAfterFirst fiveCatalog (start []) =
       (Some (Error None None (CtxError Canceled)), afterFirst)"
proof (intro conjI impI)
  assume a: "reachable res g \<and> \<not> Done g \<and> ctx s = Some c"
  then have "wellFormed g" "\<not> Done g"
    by (auto intro: reachable_wellFormed)
  then have "Ready g \<noteq> []"
    by (rule Ready_nonempty)
  then obtain cur rest where "Ready g = cur # rest"
    by (cases "Ready g") auto
  with a show "applyLoop sys ctx ok g s = (Some (CtxError c), g, s)"
    by (simp add: applyLoop.simps [of sys ctx ok g s])
next
  show "New (Resources fiveCatalog) = Inr (fiveGraph (replicate 5 NodePending))"
    by (rule fiveCatalog_New)
next
  show "applyCatalog fakeSystem cancelAfterFirst (fiveGraph (replicate 5 NodePending)) (start []) =
       (Some (CtxError Canceled), fiveGraph (NodeDone # replicate 4 NodePending), afterFirst)"
    by (rule fiveCatalog_cancelled)
next
  show "Apply fakeSystem cancelAfterFirst fiveCatalog (start []) =
       (Some (Error None None (CtxError Canceled)), afterFirst)"
    by (simp add: Apply_def fiveCatalog_New fiveCatalog_cancelled toError_def)
qed

theorem applyLoop_cancelled_witness:
  "reachable (Resources fiveCatalog) (fiveGraph (NodeDone # replicate 4 NodePending))
   \<and> \<not> Done (fiveGraph (NodeDone # replicate 4 NodePending))
   \<and> cancelAfterFirst afterFirst = Some Canceled
   \<and> applyLoop fakeSystem cancelAfterFirst True (fiveGraph (NodeDone # replicate 4 NodePending))
       afterFirst =
     (Some (CtxError Canceled), fiveGraph (NodeDone # replicate 4 NodePending), afterFirst)"
proof -
  have r: "Ready (fiveGraph (replicate 5 NodePending)) = 0 # [3]"
    by code_simp
  have m: "Mark 0 (fiveGraph (replicate 5 NodePending)) = fiveGraph (NodeDone # replicate 4 NodePending)"
    by code_simp
  from reachable.marked [OF reachable.built [OF fiveCatalog_New] r] m
  have 1: "reachable (Resources fiveCatalog) (fiveGraph (NodeDone # replicate 4 NodePending))"
    by simp
  have 2: "\<not> Done (fiveGraph (NodeDone # replicate 4 NodePending))"
    by code_simp
  have 3: "cancelAfterFirst afterFirst = Some Canceled"
    by (simp add: cancelAfterFirst_def afterFirst_def)
  from 1 2 3
    applyLoop_cancelled [of "Resources fiveCatalog" "fiveGraph (NodeDone # replicate 4 NodePending)"
      cancelAfterFirst afterFirst Canceled fakeSystem True]
  show ?thesis by blast
qed

section \<open>The result of \<open>Apply\<close>\<close>

lemma New_Nil: "New [] = Inr []"
  by (simp add: New_def)

text \<open>
  C1: from a state in which no resource has been run, \<open>Apply\<close> returns nil iff every
  resource of the catalog was handed to its executor and the executor returned nil. And
  when the graph is built and the context is never cancelled, the loop ends with the
  graph done, every node that is not skipped having been run; it returns the summary
  error \<open>not all resources applied cleanly\<close> when some executor returned an error, never
  that error, and nil otherwise; \<open>Apply\<close> returns the same, wrapped by \<open>toError\<close>.
\<close>
theorem Apply_nil_iff_all_succeeded:
  assumes "ran s = []"
  shows "(fst (Apply sys ctx c s) = None \<longleftrightarrow>
            (\<forall>i<length (Resources c). (i, None) \<in> set (ran (snd (Apply sys ctx c s)))))
    \<and> (\<forall>g. New (Resources c) = Inr g \<and> (\<forall>t. ctx t = None) \<longrightarrow>
          (case applyCatalog sys ctx g s of
             (r, g', s') \<Rightarrow>
               Done g'
               \<and> (\<forall>i<length g'. status (g' ! i) = NodeSkipped \<or> i \<in> fst ` set (ran s'))
               \<and> r = (if \<exists>i e. (i, Some e) \<in> set (ran s')
                      then Some (ErrorsNew ''not all resources applied cleanly'') else None)
               \<and> Apply sys ctx c s = (map_option toError r, s')))"
proof (cases "New (Resources c)")
  case (Inl e)
  then have "Resources c \<noteq> []"
    using New_Nil by auto
  with Inl assms show ?thesis
    by (auto simp: Apply_def)
next
  case (Inr g)
  from loopInv_start [OF Inr] assms have "loopInv g True (ran s)"
    by simp
  from applyLoop_post [OF this, of ctx sys]
  have post: "loopPost ctx g (applyCatalog sys ctx g s)"
    by (simp add: applyCatalog_def)
  obtain r g' s' where out: "applyCatalog sys ctx g s = (r, g', s')"
    by (cases "applyCatalog sys ctx g s")
  have ap: "Apply sys ctx c s = (map_option toError r, s')"
    by (cases r) (simp_all add: Apply_def Inr out)
  from post out New_Inr(1) [OF Inr] New_wellFormed [OF Inr] ap Inr show ?thesis
    by (simp add: loopPost_def)
qed

definition failingCatalog :: Catalog where
  "failingCatalog =
     \<lparr>Resources =
        [absentResource 1 ''/tmp/1'' [],
         \<lparr>ID = 2, Comment = ''bad'', Dependencies = [], Which = Resource_other 9\<rparr>,
         absentResource 3 ''/tmp/3'' [2], absentResource 4 ''/tmp/4'' [3, 1],
         absentResource 5 ''/tmp/5'' [1]]\<rparr>"

lemma failingCatalog_Apply:
  "Apply fakeSystem (\<lambda>s. None) failingCatalog (start []) =
     (Some (Error None None (ErrorsNew ''not all resources applied cleanly'')),
      \<lparr>world = [], calls = [Call_Remove ''/tmp/1'', Call_Remove ''/tmp/5''],
       logs = [Infof ''applying: %s'' [ArgStr ''id=1''],
               Infof ''applying: %s'' [ArgStr ''bad (id=2)''],
               LogError (Error (Some (2, ''bad'')) None (Errorf ''unknown type %v'' [ArgNat 9])),
               Infof ''skipping due to failure of %s: %s''
                 [ArgStr ''bad (id=2)'', ArgStr ''id=3, id=4''],
               Infof ''applying: %s'' [ArgStr ''id=5'']],
       ran = [(0, None), (1, Some (Errorf ''unknown type %v'' [ArgNat 9])), (4, None)]\<rparr>)"
  by code_simp

lemma fiveCatalog_Apply:
  "Apply fakeSystem (\<lambda>s. None) fiveCatalog (start []) =
     (None,
      \<lparr>world = [],
       calls = [Call_Remove ''/tmp/1'', Call_Remove ''/tmp/2'', Call_Remove ''/tmp/3'',
                Call_Remove ''/tmp/4'', Call_Remove ''/tmp/5''],
       logs = [Infof ''applying: %s'' [ArgStr ''id=1''], Infof ''applying: %s'' [ArgStr ''id=2''],
               Infof ''applying: %s'' [ArgStr ''id=3''], Infof ''applying: %s'' [ArgStr ''id=4''],
               Infof ''applying: %s'' [ArgStr ''id=5'']],
       ran = [(0, None), (1, None), (2, None), (3, None), (4, None)]\<rparr>)"
  by code_simp

theorem Apply_nil_iff_all_succeeded_witness:
  "ran (start ([] :: (string \<times> fake_node) list)) = []
   \<and> length (Resources fiveCatalog) = 5
   \<and> ran (snd (Apply fakeSystem (\<lambda>s. None) fiveCatalog (start [])))
       = [(0, None), (1, None), (2, None), (3, None), (4, None)]
   \<and> fst (Apply fakeSystem (\<lambda>s. None) fiveCatalog (start [])) = None
   \<and> length (Resources failingCatalog) = 5
   \<and> ran (snd (Apply fakeSystem (\<lambda>s. None) failingCatalog (start [])))
       = [(0, None), (1, Some (Errorf ''unknown type %v'' [ArgNat 9])), (4, None)]
   \<and> fst (Apply fakeSystem (\<lambda>s. None) failingCatalog (start []))
       = Some (Error None None (ErrorsNew ''not all resources applied cleanly''))"
proof -
  have s: "ran (start ([] :: (string \<times> fake_node) list)) = []"
    by (simp add: start_def)
  have l: "length (Resources fiveCatalog) = 5" "length (Resources failingCatalog) = 5"
    by (simp_all add: fiveCatalog_def failingCatalog_def)
  have five: "ran (snd (Apply fakeSystem (\<lambda>s. None) fiveCatalog (start [])))
       = [(0, None), (1, None), (2, None), (3, None), (4, None)]"
    by (simp add: fiveCatalog_Apply)
  have "\<forall>i<length (Resources fiveCatalog).
          (i, None) \<in> set (ran (snd (Apply fakeSystem (\<lambda>s. None) fiveCatalog (start []))))"
    unfolding five l by (simp add: less_Suc_eq numeral_nat)
  with Apply_nil_iff_all_succeeded [OF s, of fakeSystem "\<lambda>s. None" fiveCatalog]
  have "fst (Apply fakeSystem (\<lambda>s. None) fiveCatalog (start [])) = None"
    by blast
  with s l five failingCatalog_Apply show ?thesis
    by simp
qed

end
